theory Spec2Isabelle
  imports Main "HOL-Library.Char_ord" "HOL-Library.List_Lexorder" "HOL-Library.Multiset"
begin

section \<open>The error chain model (errors/errors.go)\<close>

subsection \<open>Data\<close>

text \<open>
  The value types of package \<^verbatim>\<open>models\<close> are declared outside the files at hand; their
  fields are taken from the way \<^verbatim>\<open>errors.go\<close> reads and writes them. A Go slice that is
  only ever compared with \<^verbatim>\<open>nil\<close> and read (\<^verbatim>\<open>StackTrace\<close>) is an optional list,
  \<open>None\<close> being the nil slice. Field names carry the name of their struct, since two
  structs share the names \<^verbatim>\<open>Code\<close>, \<^verbatim>\<open>Message\<close> and \<^verbatim>\<open>Source\<close>.
\<close>

record KeyValue =
  Key :: string
  Value :: string

record Error =
  Error_Message :: string
  Error_Code :: string
  Error_Source :: string
  Error_Parameters :: "KeyValue list"

record Hop =
  Hop_Binary :: string
  Hop_StackTrace :: "string list option"
  Hop_Errors :: "Error list"

record Metadata =
  Metadata_Trace :: Hop
  Metadata_Code :: string

text \<open>The zero values \<^verbatim>\<open>models.Hop{}\<close> and \<^verbatim>\<open>models.Metadata{}\<close>.\<close>

definition zero_Hop :: Hop where
  "zero_Hop = \<lparr>Hop_Binary = [], Hop_StackTrace = None, Hop_Errors = []\<rparr>"

definition zero_Metadata :: Metadata where
  "zero_Metadata = \<lparr>Metadata_Trace = zero_Hop, Metadata_Code = []\<rparr>"

text \<open>
  A value of Go's interface type \<^verbatim>\<open>error\<close> is \<open>None\<close> for \<^verbatim>\<open>nil\<close>, or one of:
  a \<^verbatim>\<open>*JettisonError\<close> with the five fields \<^verbatim>\<open>errors.go\<close> sets; an
  \<^verbatim>\<open>*internal.Error\<close>, the node type \<^verbatim>\<open>log.go\<close> inspects; a joined error, whose
  \<^verbatim>\<open>Unwrap\<close> returns a slice of errors; any other error, given by the text its
  \<^verbatim>\<open>Error()\<close> returns and by what its \<^verbatim>\<open>Unwrap() error\<close> returns (\<open>None\<close> when it
  has no such method, or returns nil). Errors are finite trees here: an error that
  unwraps to itself is not represented.
\<close>

datatype error =
    JettisonError (message: string) (err: "error option") (metadata: Metadata)
      (OriginalErr: "error option") (Hops: "Hop list")
  | InternalError (IE_Message: string) (IE_Err: "error option") (IE_Code: string)
      (IE_Source: string) (IE_Binary: string) (IE_KV: "KeyValue list")
      (IE_StackTrace: "string list")
  | JoinedError string "error list"
  | ForeignError string "error option"

datatype panic = IndexOutOfRange

text \<open>
  What a call reads from its process and its call site: \<^verbatim>\<open>os.Args[0]\<close>, the frames a
  stack capture with a given skip depth yields, the source location of the caller at
  a given depth, and the clock.
\<close>

record env =
  os_Args0 :: string
  frames :: "nat \<Rightarrow> string list option"
  caller :: "nat \<Rightarrow> string"
  clock :: nat

subsection \<open>Collaborators outside the files at hand\<close>

text \<open>
  Go's \<^verbatim>\<open>filepath.Base\<close> on a Unix path: the last element of the path, after trailing
  slashes are removed; \<^verbatim>\<open>.\<close> for the empty path and \<^verbatim>\<open>/\<close> for a path of slashes only.
\<close>

definition filepath_Base :: "string \<Rightarrow> string" where
  "filepath_Base path =
     (if path = [] then ''.''
      else let p = rev (dropWhile (\<lambda>c. c = CHR ''/'') (rev path));
               q = rev (takeWhile (\<lambda>c. c \<noteq> CHR ''/'') (rev p))
           in if q = [] then ''/'' else q)"

text \<open>
  Modelled from the spec: \<^verbatim>\<open>internal.GetStackTrace\<close> is not among the files at hand; it
  "captures an ordered sequence of call frames at a given skip depth".
\<close>

definition GetStackTrace :: "env \<Rightarrow> nat \<Rightarrow> string list option" where
  "GetStackTrace ev skip = frames ev skip"

text \<open>
  Modelled from the spec: \<^verbatim>\<open>internal.NewHop\<close> is not among the files at hand; a hop is
  "one process/binary's contribution to a chain", so a new hop carries the binary's
  name, no stack trace and no segments.
\<close>

definition NewHop :: "env \<Rightarrow> Hop" where
  "NewHop ev =
     \<lparr>Hop_Binary = filepath_Base (os_Args0 ev), Hop_StackTrace = None, Hop_Errors = []\<rparr>"

text \<open>
  Modelled from the spec: \<^verbatim>\<open>internal.NewError\<close> is not among the files at hand; a segment
  is "message text, optional code, optional source location string, ordered set of
  key/value parameters", and a new one holds the message and the caller's location.
\<close>

definition NewError :: "env \<Rightarrow> string \<Rightarrow> Error" where
  "NewError ev msg =
     \<lparr>Error_Message = msg, Error_Code = [], Error_Source = caller ev 2,
      Error_Parameters = []\<rparr>"

text \<open>
  Modelled from the spec: the methods of \<^verbatim>\<open>*JettisonError\<close> and \<^verbatim>\<open>*internal.Error\<close> are
  not among the files at hand. \<^verbatim>\<open>Error()\<close> gives the chain's "outward message";
  \<^verbatim>\<open>Unwrap()\<close> gives the wrapped error that \<^verbatim>\<open>Wrap\<close> records, and a joined error has
  no single-child \<^verbatim>\<open>Unwrap\<close>; \<^verbatim>\<open>Clone()\<close> is a deep copy, which on values is the
  value itself.
\<close>

fun Error_text :: "error \<Rightarrow> string" where
  "Error_text (JettisonError m e md oe hs) = m"
| "Error_text (InternalError m e c s b kv st) = m"
| "Error_text (JoinedError m es) = m"
| "Error_text (ForeignError m e) = m"

fun Unwrap :: "error \<Rightarrow> error option" where
  "Unwrap (JettisonError m e md oe hs) = e"
| "Unwrap (InternalError m e c s b kv st) = e"
| "Unwrap (JoinedError m es) = None"
| "Unwrap (ForeignError m e) = e"

definition Clone :: "error \<Rightarrow> error" where
  "Clone je = je"

subsection \<open>Options\<close>

text \<open>
  An option of \<^verbatim>\<open>errors.go\<close> is a function that switches on the type of its target, a
  \<^verbatim>\<open>*models.Hop\<close> or a \<^verbatim>\<open>*models.Metadata\<close>, and writes through the pointer. The three
  options are the constructors of a datatype, and each of the two cases of the type switch
  is a function returning the target as written.
\<close>

datatype Option = WithBinary string | WithCode string | WithoutStackTrace

fun Apply_Hop :: "Option \<Rightarrow> Hop \<Rightarrow> Hop" where
  "Apply_Hop (WithBinary bin) det = det\<lparr>Hop_Binary := bin\<rparr>"
| "Apply_Hop (WithCode code) det =
     (if length (Hop_Errors det) > 0
      then det\<lparr>Hop_Errors := (Hop_Errors det)[0 := (Hop_Errors det ! 0)\<lparr>Error_Code := code\<rparr>]\<rparr>
      else det)"
| "Apply_Hop WithoutStackTrace det =
     (if length (Hop_Errors det) \<le> 1 then det\<lparr>Hop_StackTrace := None\<rparr> else det)"

fun Apply_Metadata :: "Option \<Rightarrow> Metadata \<Rightarrow> Metadata" where
  "Apply_Metadata (WithBinary bin) det =
     det\<lparr>Metadata_Trace := (Metadata_Trace det)\<lparr>Hop_Binary := bin\<rparr>\<rparr>"
| "Apply_Metadata (WithCode code) det = det\<lparr>Metadata_Code := code\<rparr>"
| "Apply_Metadata WithoutStackTrace det = det\<lparr>Metadata_Trace := zero_Hop\<rparr>"

text \<open>The loop \<^verbatim>\<open>for _, o := range ol { o.Apply(&h); o.Apply(&md) }\<close>.\<close>

fun apply_options :: "Option list \<Rightarrow> Hop \<Rightarrow> Metadata \<Rightarrow> Hop \<times> Metadata" where
  "apply_options [] h md = (h, md)"
| "apply_options (opt # ol) h md = apply_options ol (Apply_Hop opt h) (Apply_Metadata opt md)"

subsection \<open>New, Wrap, hasTrace, GetCodes\<close>

definition newMetadata :: "env \<Rightarrow> Metadata" where
  "newMetadata ev =
     \<lparr>Metadata_Trace =
        \<lparr>Hop_Binary = filepath_Base (os_Args0 ev), Hop_StackTrace = GetStackTrace ev 3,
         Hop_Errors = []\<rparr>,
      Metadata_Code = []\<rparr>"

definition trace :: "env \<Rightarrow> Hop" where
  "trace ev =
     \<lparr>Hop_Binary = filepath_Base (os_Args0 ev), Hop_StackTrace = GetStackTrace ev 3,
      Hop_Errors = []\<rparr>"

definition New :: "env \<Rightarrow> string \<Rightarrow> Option list \<Rightarrow> error" where
  "New ev msg ol =
     (let h = NewHop ev;
          h = h\<lparr>Hop_StackTrace := GetStackTrace ev 2\<rparr>;
          h = h\<lparr>Hop_Errors := [NewError ev msg]\<rparr>;
          md = newMetadata ev;
          (h, md) = apply_options ol h md
      in JettisonError msg None md None [h])"

text \<open>
  \<^verbatim>\<open>hasTrace\<close> walks the unwrap chain: at a \<^verbatim>\<open>*JettisonError\<close> whose Metadata trace names
  a binary it returns that trace; otherwise it goes on with \<^verbatim>\<open>Unwrap()\<close> when the error
  has one, and stops when it has none or the result is nil. The type assertion
  \<^verbatim>\<open>e.(*JettisonError)\<close> is the discriminator \<open>is_JettisonError\<close> of the datatype.
\<close>

function hasTrace_from :: "error \<Rightarrow> Hop \<times> bool" where
  "hasTrace_from e =
     (if is_JettisonError e \<and> Hop_Binary (Metadata_Trace (metadata e)) \<noteq> []
      then (Metadata_Trace (metadata e), True)
      else (case Unwrap e of
              Some e' \<Rightarrow> hasTrace_from e'
            | None \<Rightarrow> (zero_Hop, False)))"
  by pat_completeness auto
termination
proof (relation "measure size")
  show "wf (measure size)" by simp
next
  fix e e' :: error
  assume "Unwrap e = Some e'"
  then show "(e', e) \<in> measure size" by (cases e) auto
qed

definition hasTrace :: "error option \<Rightarrow> Hop \<times> bool" where
  "hasTrace er = (case er of None \<Rightarrow> (zero_Hop, False) | Some e \<Rightarrow> hasTrace_from e)"

text \<open>
  \<^verbatim>\<open>Wrap\<close>. Indexing \<^verbatim>\<open>je.Hops[0]\<close> panics on a chain with no hop; the result is then
  \<open>Inl IndexOutOfRange\<close>. A foreign error becomes a chain of one hop whose single
  segment holds the error's text.
\<close>

definition Wrap :: "env \<Rightarrow> error option \<Rightarrow> string \<Rightarrow> Option list \<Rightarrow> panic + error option" where
  "Wrap ev er msg ol =
     (case er of
        None \<Rightarrow> Inr None
      | Some e \<Rightarrow>
          (let je =
                (if \<not> is_JettisonError e
                 then JettisonError [] None zero_Metadata (Some e)
                        [(NewHop ev)\<lparr>Hop_Errors :=
                           [\<lparr>Error_Message = Error_text e, Error_Code = [], Error_Source = [],
                             Error_Parameters = []\<rparr>]\<rparr>]
                 else Clone e)
           in case Hops je of
                [] \<Rightarrow> Inl IndexOutOfRange
              | h0 # hs \<Rightarrow>
                  (let h0 = (if Hop_StackTrace h0 = None
                             then h0\<lparr>Hop_StackTrace := GetStackTrace ev 2\<rparr> else h0);
                       h0 = h0\<lparr>Hop_Errors := NewError ev msg # Hop_Errors h0\<rparr>;
                       md = zero_Metadata;
                       md = (if \<not> snd (hasTrace (Some e)) then md\<lparr>Metadata_Trace := trace ev\<rparr>
                             else md);
                       (h0, md) = apply_options ol h0 md
                   in Inr (Some (JettisonError msg (Some e) md (OriginalErr je) (h0 # hs))))))"

text \<open>\<^verbatim>\<open>GetCodes\<close>: the non-empty codes of all segments, hop by hop.\<close>

definition GetCodes :: "error option \<Rightarrow> string list" where
  "GetCodes er =
     (case er of
        None \<Rightarrow> []
      | Some e \<Rightarrow>
          (if \<not> is_JettisonError e then []
           else concat (map (\<lambda>h. filter (\<lambda>c. c \<noteq> []) (map Error_Code (Hop_Errors h)))
                          (Hops e))))"


subsection \<open>Notions the properties are stated with\<close>

text \<open>
  The current hop of a chain is its first hop; \<open>hop_trace\<close> is the stack trace of the
  current hop. \<open>chain_ok\<close> is what \<^verbatim>\<open>New\<close> establishes and \<^verbatim>\<open>Wrap\<close> keeps: a chain
  has a current hop with at least one segment (an error of another type is wrapped
  into such a chain). \<open>Wrap_all\<close> is a sequence of \<^verbatim>\<open>Wrap\<close> calls, each on the result of
  the one before. \<open>left_code ol c\<close> is the code that the options \<open>ol\<close> leave on a
  segment whose code was \<open>c\<close>. \<open>trace_owners\<close> counts the chain values of an unwrap chain that own
  a Metadata trace, by the test \<^verbatim>\<open>hasTrace\<close> applies. \<open>wrap_hop\<close>, \<open>wrap_md\<close> and
  \<open>foreign_hop\<close> name the steps of \<^verbatim>\<open>Wrap\<close> before the options are applied.
  \<open>ev0\<close> and \<open>ev1\<close> are two processes and call sites; \<open>bare_chain\<close> is a chain whose
  current hop has a stack trace and no segment, as the exported field \<^verbatim>\<open>Hops\<close> allows.
\<close>


fun current_hop :: "error \<Rightarrow> Hop option" where
  "current_hop (JettisonError m e md oe hs) = (case hs of [] \<Rightarrow> None | h # _ \<Rightarrow> Some h)"
| "current_hop _ = None"

definition hop_trace :: "error \<Rightarrow> string list option" where
  "hop_trace e = (case current_hop e of None \<Rightarrow> None | Some h \<Rightarrow> Hop_StackTrace h)"

definition chain_ok :: "error \<Rightarrow> bool" where
  "chain_ok e =
     (if is_JettisonError e
      then (case current_hop e of None \<Rightarrow> False | Some h \<Rightarrow> Hop_Errors h \<noteq> [])
      else True)"

fun Wrap_all :: "error option \<Rightarrow> (env \<times> string \<times> Option list) list \<Rightarrow> panic + error option" where
  "Wrap_all er [] = Inr er"
| "Wrap_all er ((ev, msg, ol) # ws) =
     (case Wrap ev er msg ol of Inl p \<Rightarrow> Inl p | Inr er' \<Rightarrow> Wrap_all er' ws)"

fun left_code :: "Option list \<Rightarrow> string \<Rightarrow> string" where
  "left_code [] c = c"
| "left_code (WithCode c' # ol) c = left_code ol c'"
| "left_code (WithBinary b # ol) c = left_code ol c"
| "left_code (WithoutStackTrace # ol) c = left_code ol c"

function trace_owners :: "error \<Rightarrow> nat" where
  "trace_owners e =
     (if is_JettisonError e \<and> Hop_Binary (Metadata_Trace (metadata e)) \<noteq> [] then 1 else 0) +
     (case Unwrap e of Some e' \<Rightarrow> trace_owners e' | None \<Rightarrow> 0)"
  by pat_completeness auto
termination
proof (relation "measure size")
  show "wf (measure size)" by simp
next
  fix e e' :: error
  assume "Unwrap e = Some e'"
  then show "(e', e) \<in> measure size" by (cases e) auto
qed

definition ev0 :: env where
  "ev0 = \<lparr>os_Args0 = ''/usr/bin/svc'', frames = (\<lambda>skip. Some [''main.go:10'']),
          caller = (\<lambda>skip. ''main.go:10''), clock = 0\<rparr>"

definition ev1 :: env where
  "ev1 = \<lparr>os_Args0 = ''worker'', frames = (\<lambda>skip. Some [''job.go:7'']),
          caller = (\<lambda>skip. ''job.go:7''), clock = 1\<rparr>"


declare hasTrace_from.simps [simp del] trace_owners.simps [simp del]


definition wrap_hop :: "env \<Rightarrow> string \<Rightarrow> Hop \<Rightarrow> Hop" where
  "wrap_hop ev msg h0 =
     (if Hop_StackTrace h0 = None then h0\<lparr>Hop_StackTrace := GetStackTrace ev 2\<rparr> else h0)
       \<lparr>Hop_Errors := NewError ev msg # Hop_Errors h0\<rparr>"

definition wrap_md :: "env \<Rightarrow> error \<Rightarrow> Metadata" where
  "wrap_md ev e =
     (if \<not> snd (hasTrace (Some e)) then zero_Metadata\<lparr>Metadata_Trace := trace ev\<rparr>
      else zero_Metadata)"

definition foreign_hop :: "env \<Rightarrow> error \<Rightarrow> Hop" where
  "foreign_hop ev e =
     (NewHop ev)\<lparr>Hop_Errors :=
        [\<lparr>Error_Message = Error_text e, Error_Code = [], Error_Source = [],
          Error_Parameters = []\<rparr>]\<rparr>"

section \<open>Wrap on an explicit heap\<close>

text \<open>
  The value model above cannot say that \<^verbatim>\<open>Wrap\<close> leaves its argument alone: a value is
  never changed. Here \<^verbatim>\<open>Wrap\<close> is modelled on an explicit heap. A \<^verbatim>\<open>*JettisonError\<close> is
  an address of a chain cell; a slice of hops or of segments is the address of its backing
  array (\<open>None\<close> for the nil slice); an interface value of type \<^verbatim>\<open>error\<close> is nil, a
  pointer to a chain, or an error of another type, given by its text and by what it unwraps
  to. Stack traces and parameters are never written element by element, and stay values.
  Allocation takes the next address that is not in use.
\<close>

datatype ref = RNil | RChain nat | RForeign string ref

record Hop_cell =
  cell_Binary :: string
  cell_StackTrace :: "string list option"
  cell_Errors :: "nat option"

record Metadata_cell =
  cell_Trace :: Hop_cell
  cell_Code :: string

record Chain_cell =
  cell_message :: string
  cell_err :: ref
  cell_metadata :: Metadata_cell
  cell_OriginalErr :: ref
  cell_Hops :: "nat option"

record heap =
  chains :: "nat \<rightharpoonup> Chain_cell"
  hop_arrays :: "nat \<rightharpoonup> Hop_cell list"
  error_arrays :: "nat \<rightharpoonup> Error list"
  next_addr :: nat

definition zero_Hop_cell :: Hop_cell where
  "zero_Hop_cell = \<lparr>cell_Binary = [], cell_StackTrace = None, cell_Errors = None\<rparr>"

definition zero_Metadata_cell :: Metadata_cell where
  "zero_Metadata_cell = \<lparr>cell_Trace = zero_Hop_cell, cell_Code = []\<rparr>"

definition load_errors :: "heap \<Rightarrow> nat option \<Rightarrow> Error list" where
  "load_errors s sl =
     (case sl of None \<Rightarrow> [] | Some a \<Rightarrow> (case error_arrays s a of None \<Rightarrow> [] | Some xs \<Rightarrow> xs))"

definition load_hops :: "heap \<Rightarrow> nat option \<Rightarrow> Hop_cell list" where
  "load_hops s sl =
     (case sl of None \<Rightarrow> [] | Some a \<Rightarrow> (case hop_arrays s a of None \<Rightarrow> [] | Some hs \<Rightarrow> hs))"

definition alloc_errors :: "heap \<Rightarrow> Error list \<Rightarrow> heap \<times> nat" where
  "alloc_errors s xs =
     (s\<lparr>error_arrays := (error_arrays s)(next_addr s \<mapsto> xs), next_addr := Suc (next_addr s)\<rparr>,
      next_addr s)"

definition alloc_hops :: "heap \<Rightarrow> Hop_cell list \<Rightarrow> heap \<times> nat" where
  "alloc_hops s hs =
     (s\<lparr>hop_arrays := (hop_arrays s)(next_addr s \<mapsto> hs), next_addr := Suc (next_addr s)\<rparr>,
      next_addr s)"

definition alloc_chain :: "heap \<Rightarrow> Chain_cell \<Rightarrow> heap \<times> nat" where
  "alloc_chain s je =
     (s\<lparr>chains := (chains s)(next_addr s \<mapsto> je), next_addr := Suc (next_addr s)\<rparr>,
      next_addr s)"

definition update_hop :: "heap \<Rightarrow> nat \<times> nat \<Rightarrow> (Hop_cell \<Rightarrow> Hop_cell) \<Rightarrow> heap" where
  "update_hop s det f =
     (case hop_arrays s (fst det) of
        None \<Rightarrow> s
      | Some hs \<Rightarrow> s\<lparr>hop_arrays := (hop_arrays s)(fst det \<mapsto> hs[snd det := f (hs ! snd det)])\<rparr>)"

definition update_error :: "heap \<Rightarrow> nat \<times> nat \<Rightarrow> (Error \<Rightarrow> Error) \<Rightarrow> heap" where
  "update_error s loc f =
     (case error_arrays s (fst loc) of
        None \<Rightarrow> s
      | Some xs \<Rightarrow> s\<lparr>error_arrays := (error_arrays s)(fst loc \<mapsto> xs[snd loc := f (xs ! snd loc)])\<rparr>)"

definition update_chain :: "heap \<Rightarrow> nat \<Rightarrow> (Chain_cell \<Rightarrow> Chain_cell) \<Rightarrow> heap" where
  "update_chain s p f =
     (case chains s p of None \<Rightarrow> s | Some je \<Rightarrow> s\<lparr>chains := (chains s)(p \<mapsto> f je)\<rparr>)"

definition load_hop :: "heap \<Rightarrow> nat \<times> nat \<Rightarrow> Hop_cell" where
  "load_hop s det = load_hops s (Some (fst det)) ! snd det"

text \<open>
  Modelled from the spec: \<^verbatim>\<open>Clone\<close> is not among the files at hand. It is to "clone it
  deeply (no shared mutable state with the input)", by an "explicit deep copy of the
  hop/segment sequence": a new chain cell, a new array of hops, and for every hop a new
  array of segments.
\<close>

fun clone_hops :: "heap \<Rightarrow> Hop_cell list \<Rightarrow> heap \<times> Hop_cell list" where
  "clone_hops s [] = (s, [])"
| "clone_hops s (h # hs) =
     (let (s, a) = alloc_errors s (load_errors s (cell_Errors h));
          (s, hs') = clone_hops s hs
      in (s, h\<lparr>cell_Errors := Some a\<rparr> # hs'))"

definition Clone_h :: "heap \<Rightarrow> nat \<Rightarrow> (heap \<times> nat) option" where
  "Clone_h s q =
     (case chains s q of
        None \<Rightarrow> None
      | Some je \<Rightarrow>
          (let (s, hs) = clone_hops s (load_hops s (cell_Hops je));
               (s, ha) = alloc_hops s hs
           in Some (alloc_chain s (je\<lparr>cell_Hops := Some ha\<rparr>))))"

text \<open>
  \<^verbatim>\<open>hasTrace\<close> follows pointers, and a heap can hold a cycle of them; so it is a partial
  function, \<open>None\<close> when the walk does not end (or meets an address that holds no chain).
  Modelled from the spec: \<^verbatim>\<open>Unwrap\<close> of a chain gives the wrapped error \<^verbatim>\<open>Wrap\<close> records.
\<close>

partial_function (option) hasTrace_h :: "heap \<Rightarrow> ref \<Rightarrow> (Hop_cell \<times> bool) option" where
  "hasTrace_h s e =
     (case e of
        RNil \<Rightarrow> Some (zero_Hop_cell, False)
      | RForeign m u \<Rightarrow> hasTrace_h s u
      | RChain p \<Rightarrow>
          (case chains s p of
             None \<Rightarrow> None
           | Some je \<Rightarrow>
               if cell_Binary (cell_Trace (cell_metadata je)) \<noteq> []
               then Some (cell_Trace (cell_metadata je), True)
               else hasTrace_h s (cell_err je)))"

text \<open>
  The options, writing through the pointer \<^verbatim>\<open>&je.Hops[0]\<close>: the address of the array of
  hops and the index. \<^verbatim>\<open>WithCode\<close> writes into the array of segments of that hop.
\<close>

fun Apply_Hop_h :: "Option \<Rightarrow> heap \<Rightarrow> nat \<times> nat \<Rightarrow> heap" where
  "Apply_Hop_h (WithBinary bin) s det = update_hop s det (\<lambda>h. h\<lparr>cell_Binary := bin\<rparr>)"
| "Apply_Hop_h (WithCode code) s det =
     (if length (load_errors s (cell_Errors (load_hop s det))) > 0
      then (case cell_Errors (load_hop s det) of
              None \<Rightarrow> s
            | Some ea \<Rightarrow> update_error s (ea, 0) (\<lambda>x. x\<lparr>Error_Code := code\<rparr>))
      else s)"
| "Apply_Hop_h WithoutStackTrace s det =
     (if length (load_errors s (cell_Errors (load_hop s det))) \<le> 1
      then update_hop s det (\<lambda>h. h\<lparr>cell_StackTrace := None\<rparr>)
      else s)"

fun Apply_Metadata_h :: "Option \<Rightarrow> Metadata_cell \<Rightarrow> Metadata_cell" where
  "Apply_Metadata_h (WithBinary bin) det =
     det\<lparr>cell_Trace := (cell_Trace det)\<lparr>cell_Binary := bin\<rparr>\<rparr>"
| "Apply_Metadata_h (WithCode code) det = det\<lparr>cell_Code := code\<rparr>"
| "Apply_Metadata_h WithoutStackTrace det = det\<lparr>cell_Trace := zero_Hop_cell\<rparr>"

fun apply_options_h :: "Option list \<Rightarrow> heap \<Rightarrow> nat \<times> nat \<Rightarrow> Metadata_cell \<Rightarrow> heap \<times> Metadata_cell" where
  "apply_options_h [] s det md = (s, md)"
| "apply_options_h (opt # ol) s det md =
     apply_options_h ol (Apply_Hop_h opt s det) det (Apply_Metadata_h opt md)"

fun ref_text :: "ref \<Rightarrow> string" where
  "ref_text (RForeign m u) = m"
| "ref_text _ = []"

definition trace_h :: "env \<Rightarrow> Hop_cell" where
  "trace_h ev =
     \<lparr>cell_Binary = filepath_Base (os_Args0 ev), cell_StackTrace = GetStackTrace ev 3,
      cell_Errors = None\<rparr>"

definition NewHop_h :: "env \<Rightarrow> Hop_cell" where
  "NewHop_h ev =
     \<lparr>cell_Binary = filepath_Base (os_Args0 ev), cell_StackTrace = None, cell_Errors = None\<rparr>"

text \<open>
  \<^verbatim>\<open>Wrap\<close> in three parts: \<open>adopt_h\<close> builds the chain of one hop for an error of another
  type; \<open>wrap_in_place\<close> is the body of \<^verbatim>\<open>Wrap\<close> from the stack capture on, writing to
  the chain \<^verbatim>\<open>je\<close> at address \<open>p\<close>; \<open>Wrap_h\<close> is the whole function. The literal
  \<^verbatim>\<open>[]models.Error{internal.NewError(msg)}\<close> has capacity one, so \<^verbatim>\<open>append\<close> to it returns
  a new array (or the literal itself, when nothing is appended).
\<close>

definition adopt_h :: "env \<Rightarrow> heap \<Rightarrow> ref \<Rightarrow> heap \<times> nat" where
  "adopt_h ev s e =
     (let (s, ha) = alloc_hops s [NewHop_h ev];
          (s, p) = alloc_chain s
             \<lparr>cell_message = [], cell_err = RNil, cell_metadata = zero_Metadata_cell,
              cell_OriginalErr = e, cell_Hops = Some ha\<rparr>;
          (s, ea) = alloc_errors s
             [\<lparr>Error_Message = ref_text e, Error_Code = [], Error_Source = [],
               Error_Parameters = []\<rparr>];
          s = update_hop s (ha, 0) (\<lambda>h. h\<lparr>cell_Errors := Some ea\<rparr>)
      in (s, p))"

definition wrap_in_place :: "env \<Rightarrow> heap \<Rightarrow> nat \<Rightarrow> ref \<Rightarrow> string \<Rightarrow> Option list \<Rightarrow> (heap \<times> (panic + ref)) option" where
  "wrap_in_place ev s p e msg ol =
     (case chains s p of
        None \<Rightarrow> None
      | Some je \<Rightarrow>
          (case cell_Hops je of
             None \<Rightarrow> Some (s, Inl IndexOutOfRange)
           | Some ha \<Rightarrow>
               if length (load_hops s (Some ha)) = 0 then Some (s, Inl IndexOutOfRange)
               else
                 (let s = (if cell_StackTrace (load_hop s (ha, 0)) = None
                           then update_hop s (ha, 0)
                                  (\<lambda>h. h\<lparr>cell_StackTrace := GetStackTrace ev 2\<rparr>)
                           else s);
                      (s, ea) = alloc_errors s
                         (NewError ev msg # load_errors s (cell_Errors (load_hop s (ha, 0))));
                      s = update_hop s (ha, 0) (\<lambda>h. h\<lparr>cell_Errors := Some ea\<rparr>)
                  in case hasTrace_h s e of
                       None \<Rightarrow> None
                     | Some found \<Rightarrow>
                         (let md = (if \<not> snd found
                                    then zero_Metadata_cell\<lparr>cell_Trace := trace_h ev\<rparr>
                                    else zero_Metadata_cell);
                              (s, md) = apply_options_h ol s (ha, 0) md;
                              s = update_chain s p
                                    (\<lambda>je. je\<lparr>cell_message := msg, cell_err := e,
                                              cell_metadata := md\<rparr>)
                          in Some (s, Inr (RChain p))))))"

definition Wrap_h :: "env \<Rightarrow> heap \<Rightarrow> ref \<Rightarrow> string \<Rightarrow> Option list \<Rightarrow> (heap \<times> (panic + ref)) option" where
  "Wrap_h ev s e msg ol =
     (if e = RNil then Some (s, Inr RNil)
      else
        (case (case e of RChain q \<Rightarrow> Clone_h s q | _ \<Rightarrow> Some (adopt_h ev s e)) of
           None \<Rightarrow> None
         | Some (s, p) \<Rightarrow> wrap_in_place ev s p e msg ol))"

subsection \<open>Notions the heap properties are stated with\<close>

text \<open>
  \<open>frame n s s'\<close>: the heap \<open>s'\<close> holds at every address below \<open>n\<close> what \<open>s\<close> holds
  there. \<open>view s q\<close> reads the chain at \<open>q\<close> with its hops and segments, as values of
  the model above. \<open>chain_in s q\<close>: the chain at \<open>q\<close> and its arrays are allocated.
  \<open>heap_ok\<close>: every chain wraps only chains allocated before it (so no chain wraps
  itself), and \<open>ref_below s k e\<close>: the error \<open>e\<close> points only to chains below \<open>k\<close>.
  \<open>hop0_fresh\<close> is the invariant of the loop over the options. \<open>heap0\<close> is a heap with
  the chain \<^verbatim>\<open>New("a", WithCode("X"))\<close> makes.
\<close>

definition frame :: "nat \<Rightarrow> heap \<Rightarrow> heap \<Rightarrow> bool" where
  "frame n s s' =
     (next_addr s \<le> next_addr s' \<and>
      (\<forall>a<n. chains s' a = chains s a \<and> hop_arrays s' a = hop_arrays s a \<and>
             error_arrays s' a = error_arrays s a))"

definition hop0_fresh :: "nat \<Rightarrow> heap \<Rightarrow> nat \<Rightarrow> bool" where
  "hop0_fresh n s ha =
     (n \<le> ha \<and>
      (case hop_arrays s ha of
         None \<Rightarrow> False
       | Some hs \<Rightarrow> hs \<noteq> [] \<and> (case cell_Errors (hs ! 0) of None \<Rightarrow> False | Some ea \<Rightarrow> n \<le> ea)))"

definition abs_hop :: "heap \<Rightarrow> Hop_cell \<Rightarrow> Hop" where
  "abs_hop s h =
     \<lparr>Hop_Binary = cell_Binary h, Hop_StackTrace = cell_StackTrace h,
      Hop_Errors = load_errors s (cell_Errors h)\<rparr>"

definition abs_metadata :: "heap \<Rightarrow> Metadata_cell \<Rightarrow> Metadata" where
  "abs_metadata s m =
     \<lparr>Metadata_Trace = abs_hop s (cell_Trace m), Metadata_Code = cell_Code m\<rparr>"

definition view :: "heap \<Rightarrow> nat \<Rightarrow> (string \<times> ref \<times> Metadata \<times> ref \<times> Hop list) option" where
  "view s q =
     (case chains s q of
        None \<Rightarrow> None
      | Some je \<Rightarrow>
          Some (cell_message je, cell_err je, abs_metadata s (cell_metadata je),
                cell_OriginalErr je, map (abs_hop s) (load_hops s (cell_Hops je))))"

definition slice_in :: "heap \<Rightarrow> nat option \<Rightarrow> bool" where
  "slice_in s sl = (case sl of None \<Rightarrow> True | Some a \<Rightarrow> a < next_addr s)"

definition chain_in :: "heap \<Rightarrow> nat \<Rightarrow> bool" where
  "chain_in s q =
     (q < next_addr s \<and>
      (case chains s q of
         None \<Rightarrow> False
       | Some je \<Rightarrow>
           slice_in s (cell_Hops je) \<and>
           list_all (\<lambda>h. slice_in s (cell_Errors h)) (load_hops s (cell_Hops je)) \<and>
           slice_in s (cell_Errors (cell_Trace (cell_metadata je)))))"

fun ref_below :: "heap \<Rightarrow> nat \<Rightarrow> ref \<Rightarrow> bool" where
  "ref_below s k RNil = True"
| "ref_below s k (RForeign m u) = ref_below s k u"
| "ref_below s k (RChain p) = (p < k \<and> chains s p \<noteq> None)"

definition heap_ok :: "heap \<Rightarrow> bool" where
  "heap_ok s =
     (\<forall>p<next_addr s. case chains s p of None \<Rightarrow> True | Some je \<Rightarrow> ref_below s p (cell_err je))"

definition heap0 :: heap where
  "heap0 =
     \<lparr>chains = [0 \<mapsto>
         \<lparr>cell_message = ''a'', cell_err = RNil,
          cell_metadata =
            \<lparr>cell_Trace = \<lparr>cell_Binary = ''svc'', cell_StackTrace = Some [''main.go:10''],
                           cell_Errors = None\<rparr>,
             cell_Code = ''X''\<rparr>,
          cell_OriginalErr = RNil, cell_Hops = Some 1\<rparr>],
      hop_arrays = [1 \<mapsto>
         [\<lparr>cell_Binary = ''svc'', cell_StackTrace = Some [''main.go:10''],
           cell_Errors = Some 2\<rparr>]],
      error_arrays = [2 \<mapsto>
         [\<lparr>Error_Message = ''a'', Error_Code = ''X'', Error_Source = ''main.go:10'',
           Error_Parameters = []\<rparr>]],
      next_addr = 3\<rparr>"


section \<open>The log entry builder (log/log.go)\<close>

subsection \<open>Data and collaborators\<close>

text \<open>
  \<^verbatim>\<open>Entry\<close>, \<^verbatim>\<open>ErrorObject\<close> and \<^verbatim>\<open>Level\<close> are declared outside the files at hand; their
  fields are the ones \<^verbatim>\<open>log.go\<close> reads and writes. A pointer field that is nil or set is
  an option.
\<close>

type_synonym Level = string

definition LevelInfo :: Level where "LevelInfo = ''info''"
definition LevelError :: Level where "LevelError = ''error''"
definition LevelDebug :: Level where "LevelDebug = ''debug''"

type_synonym Merge = "(string \<times> string) list"

record ErrorObject =
  ErrorObject_Message :: string
  ErrorObject_Code :: string
  ErrorObject_Source :: string
  ErrorObject_Stack :: "string list"
  ErrorObject_StackTrace :: "(string \<times> string) list"
  ErrorObject_Parameters :: "KeyValue list"

record Entry =
  Entry_Message :: string
  Entry_Source :: string
  Entry_Level :: Level
  Entry_Timestamp :: nat
  Entry_Parameters :: "KeyValue list"
  Entry_ErrorCode :: "string option"
  Entry_ErrorObject :: "ErrorObject option"
  Entry_ErrorObjects :: "ErrorObject list"

record "context" =
  context_KeyValues :: "KeyValue list"

definition zero_ErrorObject :: ErrorObject where
  "zero_ErrorObject =
     \<lparr>ErrorObject_Message = [], ErrorObject_Code = [], ErrorObject_Source = [],
      ErrorObject_Stack = [], ErrorObject_StackTrace = [], ErrorObject_Parameters = []\<rparr>"

text \<open>
  Modelled from the spec: \<^verbatim>\<open>trace.Merge\<close> and \<^verbatim>\<open>MakeElastic\<close> are not among the files at
  hand. The merge "appends [a hop's] frames to the running merged sequence verbatim" and
  "tags each appended frame with that hop's binary"; the log projection holds the merged
  trace.
\<close>

definition Merge_Add :: "Merge \<Rightarrow> string list \<Rightarrow> string \<Rightarrow> Merge" where
  "Merge_Add m st bin = m @ map (\<lambda>f. (f, bin)) st"

definition FullTrace :: "Merge \<Rightarrow> (string \<times> string) list" where
  "FullTrace m = m"

definition MakeElastic :: "(string \<times> string) list \<Rightarrow> (string \<times> string) list" where
  "MakeElastic t = t"

text \<open>
  Modelled from the spec: \<^verbatim>\<open>ContextKeyValues\<close> is not among the files at hand; it gives
  the "jettison key/value pairs contained in the given context".
\<close>

definition ContextKeyValues :: "context \<Rightarrow> KeyValue list" where
  "ContextKeyValues ctx = context_KeyValues ctx"

text \<open>
  Modelled from the spec: \<^verbatim>\<open>errors.Flatten\<close> is not among the files at hand. It is a
  "depth-first traversal": a node with a multi-child unwrap recurses "into every child",
  a node with a single-child unwrap is followed by the paths of its child, a node with
  neither is a leaf, and each path is "an ordered sequence of errors from outermost to
  innermost". A joined node stays on its paths, where \<^verbatim>\<open>errorEntry\<close> looks for it.
\<close>

fun Flatten :: "error \<Rightarrow> error list list" where
  "Flatten (JoinedError m es) =
     concat (map (\<lambda>c. map (\<lambda>p. JoinedError m es # p) (Flatten c)) es)"
| "Flatten (JettisonError m None md oe hs) = [[JettisonError m None md oe hs]]"
| "Flatten (JettisonError m (Some c) md oe hs) =
     map (\<lambda>p. JettisonError m (Some c) md oe hs # p) (Flatten c)"
| "Flatten (InternalError m None cd s b kv st) = [[InternalError m None cd s b kv st]]"
| "Flatten (InternalError m (Some c) cd s b kv st) =
     map (\<lambda>p. InternalError m (Some c) cd s b kv st # p) (Flatten c)"
| "Flatten (ForeignError m None) = [[ForeignError m None]]"
| "Flatten (ForeignError m (Some c)) = map (\<lambda>p. ForeignError m (Some c) # p) (Flatten c)"

text \<open>
  Go's \<^verbatim>\<open>sort.Slice\<close> sorts a slice in place by the \<^verbatim>\<open>less\<close> function it is given, and
  does not promise to keep the order of elements that compare equal. Here it is an
  insertion sort by that function; only what every correct sort gives is proved of it.
\<close>

fun insert_by :: "('a \<Rightarrow> 'a \<Rightarrow> bool) \<Rightarrow> 'a \<Rightarrow> 'a list \<Rightarrow> 'a list" where
  "insert_by lt x [] = [x]"
| "insert_by lt x (y # ys) = (if lt y x then y # insert_by lt x ys else x # y # ys)"

definition sort_Slice :: "('a \<Rightarrow> 'a \<Rightarrow> bool) \<Rightarrow> 'a list \<Rightarrow> 'a list" where
  "sort_Slice lt xs = foldr (insert_by lt) xs []"

subsection \<open>Options, entries and the logging functions\<close>

text \<open>
  A \<^verbatim>\<open>logOption\<close> is a function on \<^verbatim>\<open>*Entry\<close>; it is a function from the entry to the
  entry as written. The logger is a sink outside the files at hand: a logging function
  takes the records the sink has received and returns them with the new record added.
\<close>

type_synonym log_Option = "Entry \<Rightarrow> Entry"

definition ApplyToLog :: "log_Option \<Rightarrow> Entry \<Rightarrow> Entry" where
  "ApplyToLog opt e = opt e"

definition logger_Log :: "Entry list \<Rightarrow> context \<Rightarrow> Entry \<Rightarrow> Entry list" where
  "logger_Log sink ctx e = sink @ [e]"

definition WithLevel :: "Level \<Rightarrow> log_Option" where
  "WithLevel level = (\<lambda>e. e\<lparr>Entry_Level := level\<rparr>)"

definition newEntry :: "env \<Rightarrow> string \<Rightarrow> Level \<Rightarrow> nat \<Rightarrow> Entry" where
  "newEntry ev msg level stackSkip =
     \<lparr>Entry_Message = msg, Entry_Source = caller ev stackSkip, Entry_Level = level,
      Entry_Timestamp = clock ev, Entry_Parameters = [], Entry_ErrorCode = None,
      Entry_ErrorObject = None, Entry_ErrorObjects = []\<rparr>"

text \<open>One round of the loop of \<^verbatim>\<open>errorEntry\<close>, on the entry and the merge built so far.\<close>

definition errorEntry_step :: "ErrorObject \<times> Merge \<Rightarrow> error \<Rightarrow> ErrorObject \<times> Merge" where
  "errorEntry_step st er =
     (let e = fst st; m = snd st;
          e = (if is_JoinedError er then e\<lparr>ErrorObject_Message := []\<rparr>
               else if ErrorObject_Message e = [] then e\<lparr>ErrorObject_Message := Error_text er\<rparr>
               else e)
      in if \<not> is_InternalError er then (e, m)
         else
           (let e = (if ErrorObject_Code e = [] then e\<lparr>ErrorObject_Code := IE_Code er\<rparr> else e);
                e = (if IE_Source er \<noteq> [] then e\<lparr>ErrorObject_Source := IE_Source er\<rparr> else e);
                e = (if IE_Binary er \<noteq> []
                     then e\<lparr>ErrorObject_Stack := ErrorObject_Stack e @ [IE_Binary er]\<rparr> else e);
                e = e\<lparr>ErrorObject_Parameters := ErrorObject_Parameters e @ IE_KV er\<rparr>;
                m = (if length (IE_StackTrace er) > 0
                     then Merge_Add m (IE_StackTrace er) (IE_Binary er) else m)
            in (e, m)))"

definition errorEntry :: "error list \<Rightarrow> ErrorObject" where
  "errorEntry errPath =
     (if length errPath = 0 then zero_ErrorObject
      else let st = foldl errorEntry_step (zero_ErrorObject, []) errPath
           in (fst st)\<lparr>ErrorObject_StackTrace := MakeElastic (FullTrace (snd st))\<rparr>)"

definition addErrors :: "Entry \<Rightarrow> error option \<Rightarrow> Entry" where
  "addErrors e er =
     (case er of
        None \<Rightarrow> e
      | Some x \<Rightarrow>
          (let paths = Flatten x
           in if length paths = 1
              then (let ent = errorEntry (paths ! 0)
                    in e\<lparr>Entry_Parameters := Entry_Parameters e @ ErrorObject_Parameters ent,
                         Entry_ErrorObject := Some ent\<rparr>)
              else foldl (\<lambda>e p. let ent = errorEntry p
                                in e\<lparr>Entry_Parameters :=
                                       Entry_Parameters e @ ErrorObject_Parameters ent,
                                     Entry_ErrorObjects := Entry_ErrorObjects e @ [ent]\<rparr>)
                     e paths))"

definition WithError :: "error option \<Rightarrow> log_Option" where
  "WithError er =
     (\<lambda>e. let codes = GetCodes er;
               e = (if length codes > 0 then e\<lparr>Entry_ErrorCode := Some (codes ! 0)\<rparr> else e)
           in addErrors e er)"

definition makeEntry :: "env \<Rightarrow> context \<Rightarrow> string \<Rightarrow> Level \<Rightarrow> log_Option list \<Rightarrow> Entry" where
  "makeEntry ev ctx msg lvl opts =
     (let l = newEntry ev msg lvl 3;
          l = foldl (\<lambda>l opt. ApplyToLog opt l) l opts;
          l = l\<lparr>Entry_Parameters := Entry_Parameters l @ ContextKeyValues ctx\<rparr>;
          l = l\<lparr>Entry_Parameters :=
                 sort_Slice (\<lambda>a b. Key a < Key b) (Entry_Parameters l)\<rparr>
      in l)"

definition Debug :: "env \<Rightarrow> Entry list \<Rightarrow> context \<Rightarrow> string \<Rightarrow> log_Option list \<Rightarrow> Entry list" where
  "Debug ev sink ctx msg opts = logger_Log sink ctx (makeEntry ev ctx msg LevelDebug opts)"

definition Info :: "env \<Rightarrow> Entry list \<Rightarrow> context \<Rightarrow> string \<Rightarrow> log_Option list \<Rightarrow> Entry list" where
  "Info ev sink ctx msg opts = logger_Log sink ctx (makeEntry ev ctx msg LevelInfo opts)"

text \<open>
  \<^verbatim>\<open>Error\<close>. The text of the error, \<^verbatim>\<open>err.Error()\<close>, is the message of the record.
\<close>

definition Error :: "env \<Rightarrow> Entry list \<Rightarrow> context \<Rightarrow> error option \<Rightarrow> log_Option list \<Rightarrow> Entry list" where
  "Error ev sink ctx er opts =
     (let err = (case er of
                   None \<Rightarrow> New ev ''nil error logged - this is probably a bug'' []
                 | Some x \<Rightarrow> x);
          opts = opts @ [WithError (Some err)];
          e = makeEntry ev ctx (Error_text err) LevelError opts
      in logger_Log sink ctx e)"





section \<open>Properties of the error chain model\<close>


lemma filepath_Base_nonempty: "filepath_Base p \<noteq> []"
  by (simp add: filepath_Base_def Let_def)

lemma Apply_Hop_length: "length (Hop_Errors (Apply_Hop opt h)) = length (Hop_Errors h)"
  by (cases opt) simp_all

lemma apply_options_length:
  "length (Hop_Errors (fst (apply_options ol h md))) = length (Hop_Errors h)"
  by (induction ol arbitrary: h md) (simp_all add: Apply_Hop_length)

lemma Apply_Hop_tl: "tl (Hop_Errors (Apply_Hop opt h)) = tl (Hop_Errors h)"
  by (cases opt; cases "Hop_Errors h") simp_all

lemma apply_options_tl: "tl (Hop_Errors (fst (apply_options ol h md))) = tl (Hop_Errors h)"
  by (induction ol arbitrary: h md) (simp_all add: Apply_Hop_tl)

lemma Apply_Hop_StackTrace_many:
  "2 \<le> length (Hop_Errors h) \<Longrightarrow> Hop_StackTrace (Apply_Hop opt h) = Hop_StackTrace h"
  by (cases opt) simp_all

lemma apply_options_StackTrace_many:
  "2 \<le> length (Hop_Errors h) \<Longrightarrow>
   Hop_StackTrace (fst (apply_options ol h md)) = Hop_StackTrace h"
  by (induction ol arbitrary: h md) (simp_all add: Apply_Hop_StackTrace_many Apply_Hop_length)

lemma Apply_Hop_StackTrace_few:
  "length (Hop_Errors h) \<le> 1 \<Longrightarrow>
   Hop_StackTrace (Apply_Hop opt h) = (if opt = WithoutStackTrace then None else Hop_StackTrace h)"
  by (cases opt) simp_all


lemma apply_options_snd_indep:
  "snd (apply_options ol h md) = snd (apply_options ol h' md)"
  by (induction ol arbitrary: h h' md) simp_all

lemma apply_options_Code_keep:
  "\<forall>c. WithCode c \<notin> set ol \<Longrightarrow>
   Metadata_Code (snd (apply_options ol h md)) = Metadata_Code md"
proof (induction ol arbitrary: h md)
  case Nil then show ?case by simp
next
  case (Cons opt ol)
  then show ?case by (cases opt) auto
qed

lemma apply_options_Trace_nobinary:
  "\<forall>b. WithBinary b \<notin> set ol \<Longrightarrow>
   Metadata_Trace (snd (apply_options ol h md)) =
     (if WithoutStackTrace \<in> set ol then zero_Hop else Metadata_Trace md)"
proof (induction ol arbitrary: h md)
  case Nil then show ?case by simp
next
  case (Cons opt ol)
  then show ?case by (cases opt) auto
qed

lemma Wrap_chain:
  "Wrap ev (Some (JettisonError m x md oe (h0 # hs))) msg ol =
     Inr (Some (JettisonError msg (Some (JettisonError m x md oe (h0 # hs)))
       (snd (apply_options ol (wrap_hop ev msg h0) (wrap_md ev (JettisonError m x md oe (h0 # hs)))))
       oe
       (fst (apply_options ol (wrap_hop ev msg h0) (wrap_md ev (JettisonError m x md oe (h0 # hs)))) # hs)))"
  by (simp add: Wrap_def Clone_def Let_def case_prod_beta wrap_hop_def wrap_md_def)

lemma Wrap_no_hop:
  "Wrap ev (Some (JettisonError m x md oe [])) msg ol = Inl IndexOutOfRange"
  by (simp add: Wrap_def Clone_def)

lemma Wrap_foreign:
  "\<not> is_JettisonError e \<Longrightarrow>
   Wrap ev (Some e) msg ol =
     Inr (Some (JettisonError msg (Some e)
       (snd (apply_options ol (wrap_hop ev msg (foreign_hop ev e)) (wrap_md ev e)))
       (Some e)
       [fst (apply_options ol (wrap_hop ev msg (foreign_hop ev e)) (wrap_md ev e))]))"
  by (simp add: Wrap_def Let_def case_prod_beta wrap_hop_def wrap_md_def foreign_hop_def)

lemma wrap_hop_length: "length (Hop_Errors (wrap_hop ev msg h)) = Suc (length (Hop_Errors h))"
  by (simp add: wrap_hop_def)

lemma wrap_hop_StackTrace:
  "Hop_StackTrace (wrap_hop ev msg h) =
     (if Hop_StackTrace h = None then GetStackTrace ev 2 else Hop_StackTrace h)"
  by (simp add: wrap_hop_def)

lemma foreign_hop_simps:
  "length (Hop_Errors (foreign_hop ev e)) = 1" "Hop_StackTrace (foreign_hop ev e) = None"
  by (simp_all add: foreign_hop_def NewHop_def)

lemma apply_options_nonempty:
  "Hop_Errors h \<noteq> [] \<Longrightarrow> Hop_Errors (fst (apply_options ol h md)) \<noteq> []"
  using apply_options_length [of ol h md] by (metis length_0_conv)

lemma wrap_hop_nonempty: "Hop_Errors (wrap_hop ev msg h) \<noteq> []"
  by (simp add: wrap_hop_def)

lemma Wrap_ok_step:
  assumes "chain_ok e"
  shows "\<exists>r. Wrap ev (Some e) msg ol = Inr (Some r) \<and> chain_ok r \<and>
           hop_trace r = (if hop_trace e = None then GetStackTrace ev 2 else hop_trace e)"
proof (cases "is_JettisonError e")
  case True
  then obtain m x md oe hs where e: "e = JettisonError m x md oe hs"
    by (cases e) auto
  with assms obtain h0 hs' where hs: "hs = h0 # hs'" and ne: "Hop_Errors h0 \<noteq> []"
    by (auto simp: chain_ok_def split: list.splits)
  from ne have two: "2 \<le> length (Hop_Errors (wrap_hop ev msg h0))"
    by (cases "Hop_Errors h0") (simp_all add: wrap_hop_length)
  show ?thesis
    unfolding e hs Wrap_chain
    using two
    by (simp add: chain_ok_def hop_trace_def apply_options_StackTrace_many
          wrap_hop_StackTrace apply_options_nonempty wrap_hop_nonempty)
next
  case False
  have two: "2 \<le> length (Hop_Errors (wrap_hop ev msg (foreign_hop ev e)))"
    by (simp add: wrap_hop_length foreign_hop_simps)
  have none: "hop_trace e = None"
    using False by (cases e) (simp_all add: hop_trace_def)
  show ?thesis
    unfolding Wrap_foreign [OF False]
    using two
    by (simp add: chain_ok_def hop_trace_def [of "JettisonError _ _ _ _ _"] none
          apply_options_StackTrace_many
          wrap_hop_StackTrace apply_options_nonempty wrap_hop_nonempty foreign_hop_simps)
qed


lemma New_ok: "chain_ok (New ev msg ol)"
  by (simp add: New_def Let_def case_prod_beta chain_ok_def NewHop_def apply_options_nonempty)






lemma hasTrace_JettisonError:
  "hasTrace (Some (JettisonError m x md oe hs)) =
     (if Hop_Binary (Metadata_Trace md) \<noteq> [] then (Metadata_Trace md, True) else hasTrace x)"
  by (simp add: hasTrace_def hasTrace_from.simps [of "JettisonError m x md oe hs"]
        split: option.splits)

lemma trace_owners_JettisonError:
  "trace_owners (JettisonError m x md oe hs) =
     (if Hop_Binary (Metadata_Trace md) \<noteq> [] then 1 else 0) +
     (case x of Some e \<Rightarrow> trace_owners e | None \<Rightarrow> 0)"
  by (simp add: trace_owners.simps [of "JettisonError m x md oe hs"])

lemma no_trace_no_owner: "\<not> snd (hasTrace_from e) \<Longrightarrow> trace_owners e = 0"
proof (induction e rule: hasTrace_from.induct)
  case (1 e)
  show ?case
  proof (cases "is_JettisonError e \<and> Hop_Binary (Metadata_Trace (metadata e)) \<noteq> []")
    case True
    with "1.prems" show ?thesis by (simp add: hasTrace_from.simps [of e])
  next
    case False
    show ?thesis
    proof (cases "Unwrap e")
      case None
      with False show ?thesis by (simp add: trace_owners.simps [of e])
    next
      case (Some e')
      with False "1.prems" have "\<not> snd (hasTrace_from e')"
        by (auto simp: hasTrace_from.simps [of e])
      with "1.IH" [OF False Some] have "trace_owners e' = 0" .
      with False Some show ?thesis by (simp add: trace_owners.simps [of e])
    qed
  qed
qed

lemma Wrap_result:
  assumes "Wrap ev (Some e) msg ol = Inr (Some r)"
  shows "\<exists>h oe hs. r = JettisonError msg (Some e) (snd (apply_options ol h (wrap_md ev e))) oe hs"
proof (cases "is_JettisonError e")
  case True
  then obtain m x md oe hs where e: "e = JettisonError m x md oe hs"
    by (cases e) auto
  show ?thesis
  proof (cases hs)
    case Nil
    with assms e show ?thesis by (simp add: Wrap_no_hop)
  next
    case (Cons h0 hs')
    with assms e show ?thesis unfolding e Cons Wrap_chain by blast
  qed
next
  case False
  with assms show ?thesis unfolding Wrap_foreign [OF False] by blast
qed

lemma Wrap_metadata:
  assumes "Wrap ev (Some e) msg ol = Inr (Some r)"
  shows "metadata r = snd (apply_options ol h (wrap_md ev e))"
    and "err r = Some e" and "is_JettisonError r"
  using Wrap_result [OF assms] apply_options_snd_indep [of ol _ "wrap_md ev e" h] by auto

lemma wrap_md_Trace:
  "Metadata_Trace (wrap_md ev e) = (if snd (hasTrace (Some e)) then zero_Hop else trace ev)"
  "Metadata_Code (wrap_md ev e) = []"
  by (simp_all add: wrap_md_def zero_Metadata_def)

lemma trace_owns: "Hop_Binary (trace ev) \<noteq> []"
  by (simp add: trace_def filepath_Base_nonempty)

lemma Wrap_trace_policy:
  assumes nb: "\<forall>b. WithBinary b \<notin> set ol"
    and w: "Wrap ev (Some e) msg ol = Inr (Some r)"
  shows "Metadata_Trace (metadata r) =
           (if snd (hasTrace (Some e)) \<or> WithoutStackTrace \<in> set ol then zero_Hop else trace ev)"
    and "hasTrace (Some r) =
           (if snd (hasTrace (Some e)) \<or> WithoutStackTrace \<in> set ol then hasTrace (Some e)
            else (trace ev, True))"
    and "trace_owners r =
           (if snd (hasTrace (Some e)) then trace_owners e
            else if WithoutStackTrace \<in> set ol then 0 else 1)"
proof -
  from Wrap_result [OF w] obtain h oe hs where
    r: "r = JettisonError msg (Some e) (snd (apply_options ol h (wrap_md ev e))) oe hs"
    by blast
  show tr: "Metadata_Trace (metadata r) =
           (if snd (hasTrace (Some e)) \<or> WithoutStackTrace \<in> set ol then zero_Hop else trace ev)"
    by (simp add: r apply_options_Trace_nobinary [OF nb] wrap_md_Trace)
  have z: "Hop_Binary zero_Hop = []" by (simp add: zero_Hop_def)
  from tr have tr': "Metadata_Trace (snd (apply_options ol h (wrap_md ev e))) =
           (if snd (hasTrace (Some e)) \<or> WithoutStackTrace \<in> set ol then zero_Hop else trace ev)"
    by (simp add: r)
  show "hasTrace (Some r) =
           (if snd (hasTrace (Some e)) \<or> WithoutStackTrace \<in> set ol then hasTrace (Some e)
            else (trace ev, True))"
    unfolding r hasTrace_JettisonError tr' using z trace_owns [of ev] by auto
  have no: "\<not> snd (hasTrace (Some e)) \<Longrightarrow> trace_owners e = 0"
    using no_trace_no_owner [of e] by (simp add: hasTrace_def)
  show "trace_owners r =
           (if snd (hasTrace (Some e)) then trace_owners e
            else if WithoutStackTrace \<in> set ol then 0 else 1)"
    unfolding r trace_owners_JettisonError tr' using z trace_owns [of ev] no by auto
qed

lemma Wrap_Some_cases:
  "Wrap ev (Some e) msg ol = Inl IndexOutOfRange \<or> (\<exists>r. Wrap ev (Some e) msg ol = Inr (Some r))"
proof (cases "is_JettisonError e")
  case True
  then obtain m x md oe hs where e: "e = JettisonError m x md oe hs"
    by (cases e) auto
  show ?thesis unfolding e by (cases hs) (simp_all add: Wrap_no_hop Wrap_chain)
next
  case False
  then show ?thesis by (simp add: Wrap_foreign)
qed

lemma Wrap_all_owner:
  assumes "\<forall>w \<in> set ws. \<forall>b. WithBinary b \<notin> set (snd (snd w))"
    and "snd (hasTrace (Some e))"
    and "Wrap_all (Some e) ws = Inr (Some r)"
  shows "hasTrace (Some r) = hasTrace (Some e)"
  using assms
proof (induction ws arbitrary: e)
  case Nil
  then show ?case by simp
next
  case (Cons w ws)
  obtain ev msg ol where w: "w = (ev, msg, ol)" by (cases w) auto
  from Cons.prems(3) Wrap_Some_cases [of ev e msg ol]
  obtain r1 where r1: "Wrap ev (Some e) msg ol = Inr (Some r1)"
    by (auto simp: w)
  from Cons.prems(1) have nb: "\<forall>b. WithBinary b \<notin> set ol" by (simp add: w)
  have h1: "hasTrace (Some r1) = hasTrace (Some e)"
    using Wrap_trace_policy(2) [OF nb r1] Cons.prems(2) by simp
  have "hasTrace (Some r) = hasTrace (Some r1)"
  proof (rule Cons.IH)
    show "\<forall>w \<in> set ws. \<forall>b. WithBinary b \<notin> set (snd (snd w))"
      using Cons.prems(1) by simp
    show "snd (hasTrace (Some r1))" using h1 Cons.prems(2) by simp
    show "Wrap_all (Some r1) ws = Inr (Some r)" using Cons.prems(3) by (simp add: w r1)
  qed
  with h1 show ?case by simp
qed

lemma New_fields:
  "Error_text (New ev msg ol) = msg" "is_JettisonError (New ev msg ol)"
  "err (New ev msg ol) = None" "\<not> is_JoinedError (New ev msg ol)"
  "\<not> is_InternalError (New ev msg ol)"
  by (simp_all add: New_def Let_def case_prod_beta)

lemma apply_options_Errors:
  "Hop_Errors h = x # xs \<Longrightarrow>
   Hop_Errors (fst (apply_options ol h md)) = x\<lparr>Error_Code := left_code ol (Error_Code x)\<rparr> # xs"
proof (induction ol arbitrary: h md x)
  case Nil
  then show ?case by simp
next
  case (Cons opt ol)
  show ?case
  proof (cases opt)
    case (WithBinary b)
    with Cons.IH [of "Apply_Hop opt h" x] Cons.prems show ?thesis by simp
  next
    case (WithCode c)
    with Cons.IH [of "Apply_Hop opt h" "x\<lparr>Error_Code := c\<rparr>"] Cons.prems show ?thesis by simp
  next
    case WithoutStackTrace
    with Cons.IH [of "Apply_Hop opt h" x] Cons.prems show ?thesis by simp
  qed
qed

lemma GetCodes_Wrap:
  assumes j: "is_JettisonError e" and w: "Wrap ev (Some e) msg ol = Inr (Some r)"
  shows "GetCodes (Some r) = filter (\<lambda>c. c \<noteq> []) [left_code ol []] @ GetCodes (Some e)"
proof -
  from j obtain m x md oe hs where e: "e = JettisonError m x md oe hs" by (cases e) auto
  show ?thesis
  proof (cases hs)
    case Nil
    with w e show ?thesis by (simp add: Wrap_no_hop)
  next
    case (Cons h0 hs')
    have "Hop_Errors (wrap_hop ev msg h0) = NewError ev msg # Hop_Errors h0"
      by (simp add: wrap_hop_def)
    from apply_options_Errors [OF this, of ol]
    have "\<And>md. Hop_Errors (fst (apply_options ol (wrap_hop ev msg h0) md)) =
            (NewError ev msg)\<lparr>Error_Code := left_code ol []\<rparr> # Hop_Errors h0"
      by (simp add: NewError_def)
    with w show ?thesis
      unfolding e Cons Wrap_chain by (auto simp: GetCodes_def)
  qed
qed


section \<open>The claims about the error chain model\<close>

text \<open>
  C6. \<^verbatim>\<open>Wrap(nil, msg, opts...)\<close> returns nil, for every message and every option list;
  on the heap it returns nil and leaves the heap as it is.
\<close>

theorem Wrap_nil:
  "Wrap ev None msg ol = Inr None \<and> Wrap_h ev s RNil msg ol = Some (s, Inr RNil)"
  by (simp add: Wrap_def Wrap_h_def)

text \<open>
  C7. \<^verbatim>\<open>GetCodes\<close> returns the non-empty codes of a chain with the code of the latest
  wrap first: for \<^verbatim>\<open>e1 := New("a", WithCode("X"))\<close> and
  \<^verbatim>\<open>e2 := Wrap(e1, "b", WithCode("Y"))\<close>, whatever the processes and call sites,
  \<^verbatim>\<open>GetCodes(e2)\<close> is \<^verbatim>\<open>["Y", "X"]\<close>. In general the codes of a wrapped chain are
  the code the options give the new segment, when it is not empty, followed by the codes
  of the chain that was wrapped.
\<close>

theorem GetCodes_latest_first:
  "(\<exists>r. Wrap ev' (Some (New ev ''a'' [WithCode ''X''])) ''b'' [WithCode ''Y''] = Inr (Some r)
      \<and> GetCodes (Some r) = [''Y'', ''X'']) \<and>
   (is_JettisonError e \<and> Wrap ev'' (Some e) msg ol = Inr (Some r') \<longrightarrow>
      GetCodes (Some r') = filter (\<lambda>c. c \<noteq> []) [left_code ol []] @ GetCodes (Some e))"
  using GetCodes_Wrap [of e ev'' msg ol r']
  by (simp add: New_def NewHop_def NewError_def Let_def Wrap_chain wrap_hop_def GetCodes_def)

theorem GetCodes_latest_first_witness:
  "is_JettisonError (New ev0 ''a'' [WithCode ''X'']) \<and>
   GetCodes (Some (New ev0 ''a'' [WithCode ''X''])) = [''X''] \<and>
   (\<exists>r. Wrap ev1 (Some (New ev0 ''a'' [WithCode ''X''])) ''b'' [WithCode ''Y''] = Inr (Some r) \<and>
        GetCodes (Some r) = [''Y'', ''X''])"
proof -
  let ?e = "New ev0 ''a'' [WithCode ''X'']"
  have j: "is_JettisonError ?e" by (simp add: New_fields)
  have c: "GetCodes (Some ?e) = [''X'']"
    by (simp add: New_def NewHop_def NewError_def Let_def GetCodes_def)
  obtain r where r: "Wrap ev1 (Some ?e) ''b'' [WithCode ''Y''] = Inr (Some r)"
    using Wrap_ok_step [where e = ?e and ev = ev1 and msg = "''b''" and ol = "[WithCode ''Y'']"]
      New_ok by blast
  from GetCodes_latest_first [where e = ?e and ev'' = ev1 and msg = "''b''"
      and ol = "[WithCode ''Y'']" and r' = r] j r c
  have "GetCodes (Some r) = [''Y'', ''X'']" by simp
  with j c r show ?thesis by blast
qed








text \<open>
  C2, as the code has it. \<^verbatim>\<open>Wrap\<close> searches the unwrap chain of the wrapped error for a
  chain value that owns a Metadata trace, and starts its own Metadata with a new trace
  only if none is found. The options are applied after that: \<^verbatim>\<open>WithBinary\<close> writes the
  binary of the new Metadata's trace whatever the search found, and \<^verbatim>\<open>WithoutStackTrace\<close>
  resets the trace. So when no option of a wrap is \<^verbatim>\<open>WithBinary\<close>: the new Metadata has
  a trace only if none was found; an owner that was found stays the owner \<^verbatim>\<open>hasTrace\<close>
  reports, also after any further such wraps; and the number of owners in the unwrap chain
  does not grow once there is one.
\<close>

theorem Wrap_trace_only_when_none:
  "(\<forall>b. WithBinary b \<notin> set ol) \<Longrightarrow> Wrap ev (Some e) msg ol = Inr (Some r) \<Longrightarrow>
   Metadata_Trace (metadata r) =
     (if snd (hasTrace (Some e)) \<or> WithoutStackTrace \<in> set ol then zero_Hop else trace ev) \<and>
   hasTrace (Some r) =
     (if snd (hasTrace (Some e)) \<or> WithoutStackTrace \<in> set ol then hasTrace (Some e)
      else (trace ev, True)) \<and>
   trace_owners r =
     (if snd (hasTrace (Some e)) then trace_owners e
      else if WithoutStackTrace \<in> set ol then 0 else 1) \<and>
   (\<forall>ws r'. (\<forall>w \<in> set ws. \<forall>b. WithBinary b \<notin> set (snd (snd w))) \<and>
        snd (hasTrace (Some r)) \<and> Wrap_all (Some r) ws = Inr (Some r') \<longrightarrow>
        hasTrace (Some r') = hasTrace (Some r))"
  using Wrap_trace_policy [of ol ev e msg r] Wrap_all_owner [of _ r] by blast

theorem Wrap_trace_only_when_none_witness:
  "snd (hasTrace (Some (New ev0 ''a'' []))) \<and>
   (\<exists>r. Wrap ev1 (Some (New ev0 ''a'' [])) ''b'' [] = Inr (Some r) \<and>
        Metadata_Trace (metadata r) = zero_Hop \<and>
        hasTrace (Some r) = hasTrace (Some (New ev0 ''a'' [])))"
proof -
  have found: "snd (hasTrace (Some (New ev0 ''a'' [])))"
    by (simp add: New_def Let_def hasTrace_JettisonError newMetadata_def filepath_Base_nonempty)
  obtain r where r: "Wrap ev1 (Some (New ev0 ''a'' [])) ''b'' [] = Inr (Some r)"
    using Wrap_ok_step [where e = "New ev0 ''a'' []" and ev = ev1 and msg = "''b''" and ol = "[]"]
      New_ok by blast
  have nb: "\<forall>b. WithBinary b \<notin> set []" by simp
  show ?thesis
    using Wrap_trace_only_when_none [OF nb r] found r by auto
qed


text \<open>
  C2 as stated fails when a wrap is given \<^verbatim>\<open>WithBinary\<close>: the error made by \<^verbatim>\<open>New\<close> owns
  a trace, and the chain wrapping it with \<^verbatim>\<open>WithBinary("edge")\<close> owns a second one, which
  is the one \<^verbatim>\<open>hasTrace\<close> now reports.
\<close>

theorem Wrap_WithBinary_counterexample:
  "(case Wrap ev1 (Some (New ev0 ''a'' [])) ''b'' [WithBinary ''edge''] of
      Inr (Some r) \<Rightarrow>
        snd (hasTrace (Some (New ev0 ''a'' []))) \<and>
        Metadata_Trace (metadata r) \<noteq> zero_Hop \<and>
        hasTrace (Some r) \<noteq> hasTrace (Some (New ev0 ''a'' [])) \<and>
        trace_owners r = 2
    | _ \<Rightarrow> False)"
  by (simp add: New_def Let_def NewHop_def Wrap_chain hasTrace_JettisonError
        trace_owners_JettisonError newMetadata_def filepath_Base_nonempty wrap_md_def
        zero_Metadata_def zero_Hop_def GetStackTrace_def ev0_def)


text \<open>
  C10. \<^verbatim>\<open>Wrap\<close> replaces the Metadata of the chain by a new one: what the options make
  of a zero Metadata that holds a new trace exactly when the search found no owner. So
  the returned Metadata has no code unless an option of this call is \<^verbatim>\<open>WithCode\<close>, and a
  trace that the Metadata of the wrapped chain itself owns is not in the returned Metadata
  (which, without \<^verbatim>\<open>WithBinary\<close>, is then the zero hop).
\<close>

theorem Wrap_replaces_metadata:
  "Wrap ev (Some e) msg ol = Inr (Some r) \<Longrightarrow>
   (\<forall>h. metadata r =
      snd (apply_options ol h
        (if snd (hasTrace (Some e)) then zero_Metadata
         else zero_Metadata\<lparr>Metadata_Trace := trace ev\<rparr>))) \<and>
   ((\<forall>c. WithCode c \<notin> set ol) \<longrightarrow> Metadata_Code (metadata r) = []) \<and>
   (is_JettisonError e \<and> Hop_Binary (Metadata_Trace (metadata e)) \<noteq> [] \<and>
      (\<forall>b. WithBinary b \<notin> set ol) \<longrightarrow> Metadata_Trace (metadata r) = zero_Hop)"
proof (intro conjI allI impI)
  assume w: "Wrap ev (Some e) msg ol = Inr (Some r)"
  show "metadata r =
      snd (apply_options ol h
        (if snd (hasTrace (Some e)) then zero_Metadata
         else zero_Metadata\<lparr>Metadata_Trace := trace ev\<rparr>))" for h
    using Wrap_metadata(1) [OF w, of h] by (simp add: wrap_md_def)
  show "Metadata_Code (metadata r) = []" if "\<forall>c. WithCode c \<notin> set ol"
    using Wrap_metadata(1) [OF w, of zero_Hop]
      apply_options_Code_keep [OF that, of zero_Hop "wrap_md ev e"]
    by (simp add: wrap_md_Trace)
  show "Metadata_Trace (metadata r) = zero_Hop"
    if "is_JettisonError e \<and> Hop_Binary (Metadata_Trace (metadata e)) \<noteq> [] \<and>
      (\<forall>b. WithBinary b \<notin> set ol)"
  proof -
    from that have found: "snd (hasTrace (Some e))"
      by (cases e) (simp_all add: hasTrace_JettisonError)
    from that have nb: "\<forall>b. WithBinary b \<notin> set ol" by simp
    show ?thesis using Wrap_trace_policy(1) [OF nb w] found by simp
  qed
qed

theorem Wrap_replaces_metadata_witness:
  "Metadata_Code (metadata (New ev0 ''a'' [WithCode ''X''])) = ''X'' \<and>
   Hop_Binary (Metadata_Trace (metadata (New ev0 ''a'' [WithCode ''X'']))) = ''svc'' \<and>
   (\<exists>r. Wrap ev1 (Some (New ev0 ''a'' [WithCode ''X''])) ''b'' [] = Inr (Some r) \<and>
        metadata r = zero_Metadata)"
proof -
  let ?e = "New ev0 ''a'' [WithCode ''X'']"
  have md: "Metadata_Code (metadata ?e) = ''X''"
    "Hop_Binary (Metadata_Trace (metadata ?e)) = ''svc''" "is_JettisonError ?e"
    by (simp_all add: New_def Let_def newMetadata_def filepath_Base_def ev0_def)
  obtain r where r: "Wrap ev1 (Some ?e) ''b'' [] = Inr (Some r)"
    using Wrap_ok_step [where e = ?e and ev = ev1 and msg = "''b''" and ol = "[]"]
      New_ok by blast
  have "metadata r = zero_Metadata"
    using Wrap_replaces_metadata [OF r] md
    by (cases "metadata r") (auto simp: zero_Metadata_def)
  with md r show ?thesis by blast
qed

section \<open>Properties of the log entry builder\<close>

lemma set_insert_by: "set (insert_by lt x ys) = insert x (set ys)"
  by (induction ys) auto

lemma sorted_insert_by_Key:
  "sorted (map Key ys) \<Longrightarrow> sorted (map Key (insert_by (\<lambda>a b. Key a < Key b) x ys))"
  by (induction ys) (auto simp: set_insert_by)

lemma sorted_sort_Slice_Key: "sorted (map Key (sort_Slice (\<lambda>a b. Key a < Key b) xs))"
  unfolding sort_Slice_def by (induction xs) (simp_all add: sorted_insert_by_Key)

lemma mset_insert_by: "mset (insert_by lt x ys) = add_mset x (mset ys)"
  by (induction ys) auto

lemma mset_sort_Slice: "mset (sort_Slice lt xs) = mset xs"
  unfolding sort_Slice_def by (induction xs) (simp_all add: mset_insert_by)











lemma Flatten_New: "Flatten (New ev msg ol) = [[New ev msg ol]]"
  by (simp add: New_def Let_def case_prod_beta)

section \<open>The claims about the log entry builder\<close>




text \<open>
  C9. The parameters of the entry \<^verbatim>\<open>makeEntry\<close> returns are sorted by key, and they are
  the parameters the options (among them \<^verbatim>\<open>WithError\<close>, which adds those of the error
  paths) have put into the entry, followed by those of the context, in another order.
\<close>

theorem makeEntry_Parameters_sorted:
  "sorted (map Key (Entry_Parameters (makeEntry ev ctx msg lvl opts))) \<and>
   mset (Entry_Parameters (makeEntry ev ctx msg lvl opts)) =
     mset (Entry_Parameters (foldl (\<lambda>l opt. ApplyToLog opt l) (newEntry ev msg lvl 3) opts) @
           ContextKeyValues ctx)"
  by (simp add: makeEntry_def Let_def sorted_sort_Slice_Key mset_sort_Slice)


text \<open>
  C8. \<^verbatim>\<open>Error\<close> with a nil error does what it does with the error
  \<^verbatim>\<open>New("nil error logged - this is probably a bug")\<close>: the logger receives one more
  record, built from that error; with no options the record has this message, the level
  \<^verbatim>\<open>error\<close> and an \<^verbatim>\<open>ErrorObject\<close> with this message.
\<close>

theorem Error_nil:
  "Error ev sink ctx None opts =
     Error ev sink ctx (Some (New ev ''nil error logged - this is probably a bug'' [])) opts \<and>
   Error ev sink ctx None opts =
     sink @ [makeEntry ev ctx ''nil error logged - this is probably a bug'' LevelError
               (opts @ [WithError (Some (New ev ''nil error logged - this is probably a bug'' []))])] \<and>
   (\<exists>e eo. Error ev sink ctx None [] = sink @ [e] \<and>
      Entry_Message e = ''nil error logged - this is probably a bug'' \<and>
      Entry_Level e = LevelError \<and>
      Entry_ErrorObject e = Some eo \<and>
      ErrorObject_Message eo = ''nil error logged - this is probably a bug'')"
proof (intro conjI)
  show "Error ev sink ctx None opts =
     Error ev sink ctx (Some (New ev ''nil error logged - this is probably a bug'' [])) opts"
    by (simp add: Error_def)
  show "Error ev sink ctx None opts =
     sink @ [makeEntry ev ctx ''nil error logged - this is probably a bug'' LevelError
               (opts @ [WithError (Some (New ev ''nil error logged - this is probably a bug'' []))])]"
    by (simp add: Error_def Let_def logger_Log_def New_fields)
  show "\<exists>e eo. Error ev sink ctx None [] = sink @ [e] \<and>
      Entry_Message e = ''nil error logged - this is probably a bug'' \<and>
      Entry_Level e = LevelError \<and>
      Entry_ErrorObject e = Some eo \<and>
      ErrorObject_Message eo = ''nil error logged - this is probably a bug''"
    by (simp add: Error_def Let_def logger_Log_def New_fields makeEntry_def newEntry_def
          ApplyToLog_def WithError_def addErrors_def Flatten_New errorEntry_def
          errorEntry_step_def zero_ErrorObject_def)
qed

section \<open>Properties of Wrap on the heap\<close>

lemma frame_refl: "frame n s s"
  by (simp add: frame_def)

lemma frame_trans: "frame n s s' \<Longrightarrow> frame n s' s'' \<Longrightarrow> frame n s s''"
  by (auto simp: frame_def)

lemma frame_alloc_errors: "n \<le> next_addr s \<Longrightarrow> frame n s (fst (alloc_errors s xs))"
  by (simp add: frame_def alloc_errors_def)

lemma frame_alloc_hops: "n \<le> next_addr s \<Longrightarrow> frame n s (fst (alloc_hops s hs))"
  by (simp add: frame_def alloc_hops_def)

lemma frame_alloc_chain: "n \<le> next_addr s \<Longrightarrow> frame n s (fst (alloc_chain s je))"
  by (simp add: frame_def alloc_chain_def)

lemma frame_update_hop: "n \<le> fst det \<Longrightarrow> frame n s (update_hop s det f)"
  by (simp add: frame_def update_hop_def split: option.splits)

lemma frame_update_error: "n \<le> fst loc \<Longrightarrow> frame n s (update_error s loc f)"
  by (simp add: frame_def update_error_def split: option.splits)

lemma frame_update_chain: "n \<le> p \<Longrightarrow> frame n s (update_chain s p f)"
  by (simp add: frame_def update_chain_def split: option.splits)

lemma frame_clone_hops:
  "n \<le> next_addr s \<Longrightarrow> frame n s (fst (clone_hops s hs))"
proof (induction hs arbitrary: s)
  case Nil
  then show ?case by (simp add: frame_refl)
next
  case (Cons h hs)
  let ?s1 = "fst (alloc_errors s (load_errors s (cell_Errors h)))"
  have f1: "frame n s ?s1" using Cons.prems by (rule frame_alloc_errors)
  have "n \<le> next_addr ?s1" using Cons.prems by (simp add: alloc_errors_def)
  from Cons.IH [OF this] have "frame n ?s1 (fst (clone_hops ?s1 hs))" .
  with f1 show ?case
    by (auto simp: case_prod_beta Let_def intro: frame_trans)
qed

lemma frame_next: "frame n s s' \<Longrightarrow> n \<le> next_addr s \<Longrightarrow> n \<le> next_addr s'"
  by (simp add: frame_def)

lemma Clone_h_frame:
  assumes "Clone_h s q = Some (s', p)"
  shows "frame (next_addr s) s s'" and "next_addr s \<le> p"
    and "\<exists>je ha. chains s' p = Some je \<and> cell_Hops je = Some ha \<and> next_addr s \<le> ha"
proof -
  from assms obtain je where je: "chains s q = Some je"
    by (auto simp: Clone_h_def split: option.splits)
  let ?n = "next_addr s"
  let ?c = "clone_hops s (load_hops s (cell_Hops je))"
  let ?s1 = "fst ?c"
  let ?a = "alloc_hops ?s1 (snd ?c)"
  let ?s2 = "fst ?a"
  have s': "s' = fst (alloc_chain ?s2 (je\<lparr>cell_Hops := Some (snd ?a)\<rparr>))"
    and p: "p = snd (alloc_chain ?s2 (je\<lparr>cell_Hops := Some (snd ?a)\<rparr>))"
    using assms je by (simp_all add: Clone_h_def case_prod_beta Let_def)
  have f1: "frame ?n s ?s1" by (rule frame_clone_hops) simp
  then have n1: "?n \<le> next_addr ?s1" by (simp add: frame_def)
  have f2: "frame ?n ?s1 ?s2" using n1 by (rule frame_alloc_hops)
  have n2: "?n \<le> next_addr ?s2" using n1 by (simp add: alloc_hops_def)
  have f3: "frame ?n ?s2 s'" unfolding s' using n2 by (rule frame_alloc_chain)
  show "frame ?n s s'" using f1 f2 f3 by (blast intro: frame_trans)
  show "?n \<le> p" using n2 by (simp add: p alloc_chain_def)
  show "\<exists>je ha. chains s' p = Some je \<and> cell_Hops je = Some ha \<and> next_addr s \<le> ha"
    using n1 by (simp add: s' p alloc_chain_def alloc_hops_def)
qed

lemma adopt_h_frame:
  assumes "adopt_h ev s e = (s', p)"
  shows "frame (next_addr s) s s'" and "next_addr s \<le> p"
    and "\<exists>je ha. chains s' p = Some je \<and> cell_Hops je = Some ha \<and> next_addr s \<le> ha"
  using assms
  by (auto simp: adopt_h_def Let_def alloc_hops_def alloc_chain_def alloc_errors_def
        update_hop_def frame_def split: option.splits)

lemma Apply_Hop_h_frame:
  assumes "hop0_fresh n s ha"
  shows "frame n s (Apply_Hop_h opt s (ha, 0))" and "hop0_fresh n (Apply_Hop_h opt s (ha, 0)) ha"
  using assms
  by (cases opt;
      auto simp: hop0_fresh_def frame_def update_hop_def update_error_def load_hop_def
        load_hops_def split: option.splits)+

lemma apply_options_h_frame:
  "hop0_fresh n s ha \<Longrightarrow> frame n s (fst (apply_options_h ol s (ha, 0) md))"
proof (induction ol arbitrary: s md)
  case Nil
  then show ?case by (simp add: frame_refl)
next
  case (Cons opt ol)
  from Apply_Hop_h_frame [OF Cons.prems, of opt]
  have f: "frame n s (Apply_Hop_h opt s (ha, 0))" and i: "hop0_fresh n (Apply_Hop_h opt s (ha, 0)) ha"
    by simp_all
  from Cons.IH [OF i] f show ?case by (auto intro: frame_trans)
qed

lemma update_hop_next: "next_addr (update_hop s det f) = next_addr s"
  by (simp add: update_hop_def split: option.splits)

lemma update_hop_array:
  "hop_arrays s a = Some hs \<Longrightarrow>
   hop_arrays (update_hop s (a, i) f) a = Some (hs[i := f (hs ! i)])"
  by (simp add: update_hop_def)

lemma wrap_in_place_frame:
  assumes w: "wrap_in_place ev s p e msg ol = Some (s', r)"
    and je: "chains s p = Some je" and ha: "cell_Hops je = Some ha"
    and n: "n \<le> next_addr s" "n \<le> p" "n \<le> ha"
  shows "frame n s s'"
proof (cases "length (load_hops s (Some ha)) = 0")
  case True
  with w je ha show ?thesis by (simp add: wrap_in_place_def frame_refl)
next
  case False
  then obtain hs where hs: "hop_arrays s ha = Some hs" "hs \<noteq> []"
    by (auto simp: load_hops_def split: option.splits)
  define s2 where "s2 = (if cell_StackTrace (load_hop s (ha, 0)) = None
                           then update_hop s (ha, 0)
                                  (\<lambda>h. h\<lparr>cell_StackTrace := GetStackTrace ev 2\<rparr>)
                           else s)"
  define al where "al = alloc_errors s2
                         (NewError ev msg # load_errors s2 (cell_Errors (load_hop s2 (ha, 0))))"
  define s4 where "s4 = update_hop (fst al) (ha, 0) (\<lambda>h. h\<lparr>cell_Errors := Some (snd al)\<rparr>)"
  from w je ha False obtain found where found: "hasTrace_h s4 e = Some found"
    by (auto simp: wrap_in_place_def Let_def case_prod_beta s2_def al_def s4_def
          split: option.splits)
  define md0 where "md0 = (if \<not> snd found
                                    then zero_Metadata_cell\<lparr>cell_Trace := trace_h ev\<rparr>
                                    else zero_Metadata_cell)"
  define ap where "ap = apply_options_h ol s4 (ha, 0) md0"
  have s': "s' = update_chain (fst ap) p
                   (\<lambda>je. je\<lparr>cell_message := msg, cell_err := e, cell_metadata := snd ap\<rparr>)"
    using w je ha False found
    by (simp add: wrap_in_place_def Let_def case_prod_beta s2_def al_def s4_def md0_def ap_def)
  have f2: "frame n s s2"
    using n by (simp add: s2_def frame_refl frame_update_hop)
  have n2: "n \<le> next_addr s2" using n by (simp add: s2_def update_hop_next)
  have "\<exists>hs2. hop_arrays s2 ha = Some hs2 \<and> hs2 \<noteq> []"
    using hs by (simp add: s2_def update_hop_array)
  then obtain hs2 where hs2: "hop_arrays s2 ha = Some hs2" "hs2 \<noteq> []"
    by blast
  have f3: "frame n s2 (fst al)" unfolding al_def using n2 by (rule frame_alloc_errors)
  have ea: "n \<le> snd al" using n2 by (simp add: al_def alloc_errors_def)
  have hs3: "hop_arrays (fst al) ha = Some hs2"
    using hs2 by (simp add: al_def alloc_errors_def)
  have f4: "frame n (fst al) s4" unfolding s4_def using n by (simp add: frame_update_hop)
  have fresh: "hop0_fresh n s4 ha"
    using n ea hs2 by (simp add: hop0_fresh_def s4_def update_hop_array [OF hs3])
  have f5: "frame n s4 (fst ap)" unfolding ap_def using fresh by (rule apply_options_h_frame)
  have f6: "frame n (fst ap) s'" unfolding s' using n by (simp add: frame_update_chain)
  from f2 f3 f4 f5 f6 show ?thesis by (blast intro: frame_trans)
qed

lemma Wrap_h_frame:
  assumes "Wrap_h ev s e msg ol = Some (s', r)"
  shows "frame (next_addr s) s s'"
proof (cases "e = RNil")
  case True
  with assms show ?thesis by (simp add: Wrap_h_def frame_refl)
next
  case False
  let ?n = "next_addr s"
  from assms False obtain s1 p where
    pre: "(case e of RChain q \<Rightarrow> Clone_h s q | _ \<Rightarrow> Some (adopt_h ev s e)) = Some (s1, p)"
    and w: "wrap_in_place ev s1 p e msg ol = Some (s', r)"
    by (auto simp: Wrap_h_def split: option.splits)
  have "frame ?n s s1 \<and> ?n \<le> p \<and>
        (\<exists>je ha. chains s1 p = Some je \<and> cell_Hops je = Some ha \<and> ?n \<le> ha)"
  proof (cases e)
    case RNil
    with False show ?thesis by simp
  next
    case (RChain q)
    with pre have "Clone_h s q = Some (s1, p)" by simp
    from Clone_h_frame [OF this] show ?thesis by blast
  next
    case (RForeign m u)
    with pre have "adopt_h ev s e = (s1, p)" by simp
    from adopt_h_frame [OF this] show ?thesis by blast
  qed
  then obtain je ha where f1: "frame ?n s s1" and p: "?n \<le> p"
    and je: "chains s1 p = Some je" "cell_Hops je = Some ha" and ha: "?n \<le> ha"
    by blast
  have n1: "?n \<le> next_addr s1" using f1 by (simp add: frame_def)
  from wrap_in_place_frame [OF w je n1 p ha] f1 show ?thesis
    by (blast intro: frame_trans)
qed

lemma frame_load_errors:
  "frame (next_addr s) s s' \<Longrightarrow> slice_in s sl \<Longrightarrow> load_errors s' sl = load_errors s sl"
  by (cases sl) (simp_all add: frame_def slice_in_def load_errors_def)

lemma frame_load_hops:
  "frame (next_addr s) s s' \<Longrightarrow> slice_in s sl \<Longrightarrow> load_hops s' sl = load_hops s sl"
  by (cases sl) (simp_all add: frame_def slice_in_def load_hops_def)

lemma frame_view:
  assumes f: "frame (next_addr s) s s'" and q: "chain_in s q"
  shows "view s' q = view s q" and "chains s' q = chains s q"
proof -
  from q obtain je where je: "chains s q = Some je" and lt: "q < next_addr s"
    and sl: "slice_in s (cell_Hops je)"
    and all: "list_all (\<lambda>h. slice_in s (cell_Errors h)) (load_hops s (cell_Hops je))"
    and md: "slice_in s (cell_Errors (cell_Trace (cell_metadata je)))"
    by (auto simp: chain_in_def split: option.splits)
  from f lt show c: "chains s' q = chains s q" by (simp add: frame_def)
  have hops: "load_hops s' (cell_Hops je) = load_hops s (cell_Hops je)"
    using f sl by (rule frame_load_hops)
  have "map (abs_hop s') (load_hops s (cell_Hops je)) = map (abs_hop s) (load_hops s (cell_Hops je))"
  proof (rule map_cong [OF refl])
    fix h assume "h \<in> set (load_hops s (cell_Hops je))"
    with all have "slice_in s (cell_Errors h)" by (simp add: list_all_iff)
    with f show "abs_hop s' h = abs_hop s h" by (simp add: abs_hop_def frame_load_errors)
  qed
  moreover have "abs_metadata s' (cell_metadata je) = abs_metadata s (cell_metadata je)"
    using f md by (simp add: abs_metadata_def abs_hop_def frame_load_errors)
  ultimately show "view s' q = view s q"
    by (simp add: view_def c je hops)
qed

lemma wrap_in_place_result:
  "wrap_in_place ev s p e msg ol = Some (s', r) \<Longrightarrow> r = Inl IndexOutOfRange \<or> r = Inr (RChain p)"
  by (auto simp: wrap_in_place_def Let_def case_prod_beta split: option.splits if_splits)

lemma Wrap_h_result:
  assumes "Wrap_h ev s e msg ol = Some (s', r)"
  shows "r = Inr RNil \<and> e = RNil \<or> r = Inl IndexOutOfRange \<or> (\<exists>p\<ge>next_addr s. r = Inr (RChain p))"
proof (cases e)
  case RNil
  with assms show ?thesis by (simp add: Wrap_h_def)
next
  case (RChain q)
  with assms obtain s1 p where c: "Clone_h s q = Some (s1, p)"
    and w: "wrap_in_place ev s1 p e msg ol = Some (s', r)"
    by (auto simp: Wrap_h_def split: option.splits)
  from Clone_h_frame(2) [OF c] wrap_in_place_result [OF w] show ?thesis by blast
next
  case (RForeign m u)
  with assms obtain s1 p where c: "adopt_h ev s e = (s1, p)"
    and w: "wrap_in_place ev s1 p e msg ol = Some (s', r)"
    by (auto simp: Wrap_h_def split: option.splits prod.splits)
  from adopt_h_frame(2) [OF c] wrap_in_place_result [OF w] show ?thesis by blast
qed

lemma heap0_in: "chain_in heap0 0"
  by (simp add: chain_in_def heap0_def slice_in_def load_hops_def)

lemma heap0_Wrap:
  "\<exists>s' p. Wrap_h ev1 heap0 (RChain 0) ''b'' [WithCode ''Y'', WithBinary ''w'', WithoutStackTrace]
     = Some (s', Inr (RChain p)) \<and>
     map (\<lambda>h. (Hop_Binary h, map Error_Code (Hop_Errors h))) (snd (snd (snd (snd (the (view s' p))))))
       = [(''w'', [''Y'', ''X''])]"
  by (simp add: Wrap_h_def Clone_h_def wrap_in_place_def heap0_def load_hops_def load_errors_def
        load_hop_def alloc_errors_def alloc_hops_def alloc_chain_def update_hop_def
        update_error_def update_chain_def hasTrace_h.simps Let_def view_def abs_hop_def
        NewError_def)

lemma hasTrace_h_total_aux:
  assumes ok: "heap_ok s"
  shows "k \<le> next_addr s \<Longrightarrow> ref_below s k e \<Longrightarrow> hasTrace_h s e \<noteq> None"
proof (induction k arbitrary: e rule: less_induct)
  case (less k)
  show ?case using less.prems(2)
  proof (induction e)
    case RNil
    then show ?case by (simp add: hasTrace_h.simps)
  next
    case (RForeign m u)
    then show ?case by (simp add: hasTrace_h.simps [of s "RForeign m u"])
  next
    case (RChain p)
    then obtain je where p: "p < k" and je: "chains s p = Some je" by auto
    from ok p less.prems(1) je have below: "ref_below s p (cell_err je)"
      by (auto simp: heap_ok_def split: option.splits)
    from less.IH [OF p _ below] p less.prems(1)
    have "hasTrace_h s (cell_err je) \<noteq> None" by simp
    then show ?case by (auto simp: hasTrace_h.simps [of s "RChain p"] je)
  qed
qed

lemma hasTrace_h_frame_aux:
  assumes ok: "heap_ok s" and f: "frame n s s'" and n: "n \<le> next_addr s"
  shows "k \<le> n \<Longrightarrow> ref_below s k e \<Longrightarrow> hasTrace_h s' e = hasTrace_h s e"
proof (induction k arbitrary: e rule: less_induct)
  case (less k)
  show ?case using less.prems(2)
  proof (induction e)
    case RNil
    then show ?case by (simp add: hasTrace_h.simps)
  next
    case (RForeign m u)
    then show ?case
      by (simp add: hasTrace_h.simps [of s "RForeign m u"] hasTrace_h.simps [of s' "RForeign m u"])
  next
    case (RChain p)
    then obtain je where p: "p < k" and je: "chains s p = Some je" by auto
    from f p less.prems(1) je have je': "chains s' p = Some je" by (simp add: frame_def)
    from ok p less.prems(1) n je have below: "ref_below s p (cell_err je)"
      by (auto simp: heap_ok_def split: option.splits)
    from less.IH [OF p _ below] p less.prems(1)
    have "hasTrace_h s' (cell_err je) = hasTrace_h s (cell_err je)" by simp
    then show ?case
      by (simp add: hasTrace_h.simps [of s "RChain p"] hasTrace_h.simps [of s' "RChain p"] je je')
  qed
qed

lemma wrap_in_place_total:
  assumes ok: "heap_ok s0" and f: "frame (next_addr s0) s0 s"
    and e: "ref_below s0 (next_addr s0) e"
    and je: "chains s p = Some je" "cell_Hops je = Some ha"
    and n: "next_addr s0 \<le> ha"
  shows "\<exists>s' r. wrap_in_place ev s p e msg ol = Some (s', r)"
proof (cases "length (load_hops s (Some ha)) = 0")
  case True
  with je show ?thesis by (simp add: wrap_in_place_def)
next
  case False
  let ?n = "next_addr s0"
  define s2 where "s2 = (if cell_StackTrace (load_hop s (ha, 0)) = None
                           then update_hop s (ha, 0)
                                  (\<lambda>h. h\<lparr>cell_StackTrace := GetStackTrace ev 2\<rparr>)
                           else s)"
  define al where "al = alloc_errors s2
                         (NewError ev msg # load_errors s2 (cell_Errors (load_hop s2 (ha, 0))))"
  define s4 where "s4 = update_hop (fst al) (ha, 0) (\<lambda>h. h\<lparr>cell_Errors := Some (snd al)\<rparr>)"
  have n1: "?n \<le> next_addr s" using f by (simp add: frame_def)
  have f2: "frame ?n s s2"
    using n by (simp add: s2_def frame_refl frame_update_hop)
  have n2: "?n \<le> next_addr s2" using n1 by (simp add: s2_def update_hop_next)
  have f3: "frame ?n s2 (fst al)" unfolding al_def using n2 by (rule frame_alloc_errors)
  have f4: "frame ?n (fst al) s4" unfolding s4_def using n by (simp add: frame_update_hop)
  from f f2 f3 f4 have "frame ?n s0 s4" by (blast intro: frame_trans)
  from hasTrace_h_frame_aux [OF ok this _ _ e] hasTrace_h_total_aux [OF ok _ e]
  have "hasTrace_h s4 e \<noteq> None" by simp
  then show ?thesis
    using je False
    by (auto simp: wrap_in_place_def Let_def case_prod_beta s2_def al_def s4_def)
qed

lemma Wrap_h_total:
  assumes ok: "heap_ok s" and e: "ref_below s (next_addr s) e"
  shows "\<exists>s' r. Wrap_h ev s e msg ol = Some (s', r)"
proof (cases e)
  case RNil
  then show ?thesis by (simp add: Wrap_h_def)
next
  case (RChain q)
  with e obtain je where "chains s q = Some je" by auto
  then obtain s1 p where c: "Clone_h s q = Some (s1, p)"
    by (cases "Clone_h s q") (auto simp: Clone_h_def case_prod_beta Let_def)
  from Clone_h_frame [OF c] obtain je1 ha where
    f: "frame (next_addr s) s s1" and je1: "chains s1 p = Some je1" "cell_Hops je1 = Some ha"
    and ha: "next_addr s \<le> ha" by blast
  from wrap_in_place_total [OF ok f e je1 ha, of ev msg ol] c RChain show ?thesis
    by (simp add: Wrap_h_def)
next
  case (RForeign m u)
  obtain s1 p where c: "adopt_h ev s e = (s1, p)" by (cases "adopt_h ev s e") auto
  from adopt_h_frame [OF c] obtain je1 ha where
    f: "frame (next_addr s) s s1" and je1: "chains s1 p = Some je1" "cell_Hops je1 = Some ha"
    and ha: "next_addr s \<le> ha" by blast
  from wrap_in_place_total [OF ok f e je1 ha, of ev msg ol] c RForeign show ?thesis
    by (simp add: Wrap_h_def)
qed

lemma heap0_ok: "heap_ok heap0" "ref_below heap0 (next_addr heap0) (RChain 0)"
  by (simp_all add: heap_ok_def heap0_def)

lemma wrap_in_place_aliased:
  "\<exists>s'. wrap_in_place ev1 heap0 0 (RChain 0) ''b'' [WithBinary ''w''] = Some (s', Inr (RChain 0)) \<and>
        view s' 0 \<noteq> view heap0 0"
  by (simp add: wrap_in_place_def heap0_def load_hops_def load_errors_def
        load_hop_def alloc_errors_def update_hop_def
        update_error_def update_chain_def hasTrace_h.simps Let_def view_def abs_hop_def
        NewError_def)

subsection \<open>The heap model and the value model agree\<close>

text \<open>
  \<^verbatim>\<open>Clone\<close> returns a chain that reads as the one it copies, and the chain \<^verbatim>\<open>Wrap\<close>
  returns on the heap reads as the value \<^verbatim>\<open>Wrap\<close> of the value model returns: the same
  message, metadata and hops.
\<close>

lemma slice_in_mono: "slice_in s sl \<Longrightarrow> next_addr s \<le> next_addr s' \<Longrightarrow> slice_in s' sl"
  by (cases sl) (simp_all add: slice_in_def)

lemma frame_abs_hop:
  "frame (next_addr s) s s' \<Longrightarrow> slice_in s (cell_Errors h) \<Longrightarrow> abs_hop s' h = abs_hop s h"
  by (simp add: abs_hop_def frame_load_errors)

lemma frame_abs_hops:
  assumes "frame (next_addr s) s s'" and "list_all (\<lambda>h. slice_in s (cell_Errors h)) hs"
  shows "map (abs_hop s') hs = map (abs_hop s) hs"
  using assms by (induction hs) (simp_all add: frame_abs_hop)

lemma clone_hops_copy:
  assumes "list_all (\<lambda>h. slice_in s (cell_Errors h)) hs"
  shows "map (abs_hop (fst (clone_hops s hs))) (snd (clone_hops s hs)) = map (abs_hop s) hs \<and>
         list_all (\<lambda>h. slice_in (fst (clone_hops s hs)) (cell_Errors h)) (snd (clone_hops s hs))"
  using assms
proof (induction hs arbitrary: s)
  case Nil
  then show ?case by simp
next
  case (Cons h hs)
  define s1 where "s1 = fst (alloc_errors s (load_errors s (cell_Errors h)))"
  define a where "a = snd (alloc_errors s (load_errors s (cell_Errors h)))"
  define s2 where "s2 = fst (clone_hops s1 hs)"
  define hs' where "hs' = snd (clone_hops s1 hs)"
  have a: "a = next_addr s" and n1: "next_addr s1 = Suc (next_addr s)"
    and arr: "error_arrays s1 a = Some (load_errors s (cell_Errors h))"
    by (simp_all add: a_def s1_def alloc_errors_def)
  have f1: "frame (next_addr s) s s1" unfolding s1_def by (rule frame_alloc_errors) simp
  from Cons.prems have h: "slice_in s (cell_Errors h)"
    and hs: "list_all (\<lambda>h. slice_in s (cell_Errors h)) hs" by simp_all
  have hs1: "list_all (\<lambda>h. slice_in s1 (cell_Errors h)) hs"
    using hs n1 by (auto simp: list_all_iff intro: slice_in_mono)
  from Cons.IH [OF hs1]
  have ih: "map (abs_hop s2) hs' = map (abs_hop s1) hs"
    and in2: "list_all (\<lambda>h. slice_in s2 (cell_Errors h)) hs'"
    by (simp_all add: s2_def hs'_def)
  have f2: "frame (next_addr s1) s1 s2" unfolding s2_def by (rule frame_clone_hops) simp
  have n2: "next_addr s1 \<le> next_addr s2" using f2 by (simp add: frame_def)
  have "error_arrays s2 a = error_arrays s1 a" using f2 a n1 by (simp add: frame_def)
  with arr have head: "abs_hop s2 (h\<lparr>cell_Errors := Some a\<rparr>) = abs_hop s h"
    by (simp add: abs_hop_def load_errors_def)
  have tail: "map (abs_hop s1) hs = map (abs_hop s) hs"
    using f1 hs by (rule frame_abs_hops)
  have res: "clone_hops s (h # hs) = (s2, h\<lparr>cell_Errors := Some a\<rparr> # hs')"
    by (simp add: case_prod_beta Let_def s1_def a_def s2_def hs'_def)
  have "slice_in s2 (Some a)" using a n1 n2 by (simp add: slice_in_def)
  with head tail ih in2 show ?case unfolding res by simp
qed

lemma Clone_h_view:
  assumes q: "chain_in s q" and c: "Clone_h s q = Some (s1, p)"
  shows "view s1 p = view s q" and "chain_in s1 p"
proof -
  from q obtain je where je: "chains s q = Some je"
    and sl: "slice_in s (cell_Hops je)"
    and all: "list_all (\<lambda>h. slice_in s (cell_Errors h)) (load_hops s (cell_Hops je))"
    and md: "slice_in s (cell_Errors (cell_Trace (cell_metadata je)))"
    by (auto simp: chain_in_def split: option.splits)
  define hs where "hs = load_hops s (cell_Hops je)"
  define sc where "sc = fst (clone_hops s hs)"
  define hs' where "hs' = snd (clone_hops s hs)"
  define ha where "ha = next_addr sc"
  define s2 where "s2 = fst (alloc_hops sc hs')"
  have "alloc_chain s2 (je\<lparr>cell_Hops := Some ha\<rparr>) = (s1, p)"
    using c je
    by (simp add: Clone_h_def case_prod_beta Let_def hs_def sc_def hs'_def ha_def s2_def
          alloc_hops_def)
  then have s1: "s1 = fst (alloc_chain s2 (je\<lparr>cell_Hops := Some ha\<rparr>))"
    and p: "p = next_addr s2"
    by (auto simp: alloc_chain_def)
  from clone_hops_copy [OF all [folded hs_def]]
  have copy: "map (abs_hop sc) hs' = map (abs_hop s) hs"
    and in_sc: "list_all (\<lambda>h. slice_in sc (cell_Errors h)) hs'"
    by (simp_all add: sc_def hs'_def)
  have fc: "frame (next_addr s) s sc" unfolding sc_def by (rule frame_clone_hops) simp
  have nc: "next_addr s \<le> next_addr sc" using fc by (simp add: frame_def)
  have ea1: "error_arrays s1 = error_arrays sc"
    by (simp add: s1 s2_def alloc_hops_def alloc_chain_def)
  have n1: "next_addr s1 = Suc (Suc (next_addr sc))"
    by (simp add: s1 s2_def alloc_hops_def alloc_chain_def)
  have abs1: "abs_hop s1 = abs_hop sc"
    by (rule ext) (simp add: abs_hop_def load_errors_def ea1 split: option.splits)
  have ch: "chains s1 p = Some (je\<lparr>cell_Hops := Some ha\<rparr>)"
    by (simp add: s1 p alloc_chain_def)
  have hp: "load_hops s1 (Some ha) = hs'"
    by (simp add: s1 s2_def ha_def load_hops_def alloc_hops_def alloc_chain_def)
  have mdv: "abs_metadata s1 (cell_metadata je) = abs_metadata s (cell_metadata je)"
    using fc md by (simp add: abs_metadata_def abs1 frame_abs_hop)
  show "view s1 p = view s q"
    by (simp add: view_def ch je hp abs1 copy mdv hs_def)
  have "list_all (\<lambda>h. slice_in s1 (cell_Errors h)) hs'"
    using in_sc n1 by (auto simp: list_all_iff intro: slice_in_mono)
  moreover have "slice_in s1 (cell_Errors (cell_Trace (cell_metadata je)))"
    using md nc n1 by (auto intro: slice_in_mono)
  moreover have "p < next_addr s1" by (simp add: n1 p s2_def alloc_hops_def)
  moreover have "slice_in s1 (Some ha)" by (simp add: slice_in_def ha_def n1)
  ultimately show "chain_in s1 p"
    by (simp add: chain_in_def ch hp)
qed

lemma abs_metadata_flat:
  "cell_Errors (cell_Trace md) = None \<Longrightarrow> abs_metadata s' md = abs_metadata s md"
  by (simp add: abs_metadata_def abs_hop_def load_errors_def)

lemma Apply_Metadata_h_sim:
  assumes "cell_Errors (cell_Trace md) = None"
  shows "abs_metadata s (Apply_Metadata_h opt md) = Apply_Metadata opt (abs_metadata s md)"
    and "cell_Errors (cell_Trace (Apply_Metadata_h opt md)) = None"
  using assms
  by (cases opt; simp add: abs_metadata_def abs_hop_def load_errors_def zero_Hop_cell_def
        zero_Hop_def)+

lemma Apply_Hop_h_sim:
  assumes "hop_arrays s ha = Some (c # cs)" and "cell_Errors c = Some ea"
  shows "\<exists>c'. hop_arrays (Apply_Hop_h opt s (ha, 0)) ha = Some (c' # cs) \<and>
           cell_Errors c' = Some ea \<and>
           abs_hop (Apply_Hop_h opt s (ha, 0)) c' = Apply_Hop opt (abs_hop s c) \<and>
           chains (Apply_Hop_h opt s (ha, 0)) = chains s \<and>
           (\<forall>a. a \<noteq> ea \<longrightarrow> error_arrays (Apply_Hop_h opt s (ha, 0)) a = error_arrays s a)"
proof (cases opt)
  case (WithBinary b)
  with assms show ?thesis
    by (simp add: update_hop_def abs_hop_def load_errors_def)
next
  case (WithCode code)
  show ?thesis
  proof (cases "error_arrays s ea")
    case None
    with assms WithCode show ?thesis
      by (simp add: load_hop_def load_hops_def abs_hop_def load_errors_def)
  next
    case (Some xs)
    with assms WithCode show ?thesis
      by (cases xs)
        (simp_all add: load_hop_def load_hops_def abs_hop_def load_errors_def update_error_def)
  qed
next
  case WithoutStackTrace
  with assms show ?thesis
    by (simp add: update_hop_def abs_hop_def load_errors_def load_hop_def load_hops_def)
qed

lemma apply_options_h_sim:
  assumes "hop_arrays s ha = Some (c # cs)" and "cell_Errors c = Some ea"
    and "cell_Errors (cell_Trace md) = None"
  shows "\<exists>c'. hop_arrays (fst (apply_options_h ol s (ha, 0) md)) ha = Some (c' # cs) \<and>
           abs_hop (fst (apply_options_h ol s (ha, 0) md)) c' =
             fst (apply_options ol (abs_hop s c) (abs_metadata s md)) \<and>
           abs_metadata s (snd (apply_options_h ol s (ha, 0) md)) =
             snd (apply_options ol (abs_hop s c) (abs_metadata s md)) \<and>
           cell_Errors (cell_Trace (snd (apply_options_h ol s (ha, 0) md))) = None \<and>
           chains (fst (apply_options_h ol s (ha, 0) md)) = chains s \<and>
           (\<forall>a. a \<noteq> ea \<longrightarrow>
              error_arrays (fst (apply_options_h ol s (ha, 0) md)) a = error_arrays s a)"
  using assms
proof (induction ol arbitrary: s c md)
  case Nil
  then show ?case by simp
next
  case (Cons opt ol)
  let ?s1 = "Apply_Hop_h opt s (ha, 0)"
  let ?md1 = "Apply_Metadata_h opt md"
  from Apply_Hop_h_sim [OF Cons.prems(1,2), of opt] obtain c1 where
    c1: "hop_arrays ?s1 ha = Some (c1 # cs)" "cell_Errors c1 = Some ea"
    and a1: "abs_hop ?s1 c1 = Apply_Hop opt (abs_hop s c)"
    and ch1: "chains ?s1 = chains s"
    and ea1: "\<forall>a. a \<noteq> ea \<longrightarrow> error_arrays ?s1 a = error_arrays s a"
    by blast
  have m1: "abs_metadata s ?md1 = Apply_Metadata opt (abs_metadata s md)"
    and e1: "cell_Errors (cell_Trace ?md1) = None"
    using Cons.prems(3) by (simp_all add: Apply_Metadata_h_sim)
  have m1': "abs_metadata ?s1 ?md1 = Apply_Metadata opt (abs_metadata s md)"
    using m1 abs_metadata_flat [OF e1, of ?s1 s] by simp
  from Cons.IH [OF c1 e1] obtain c' where
    r: "hop_arrays (fst (apply_options_h ol ?s1 (ha, 0) ?md1)) ha = Some (c' # cs)"
      "abs_hop (fst (apply_options_h ol ?s1 (ha, 0) ?md1)) c' =
         fst (apply_options ol (abs_hop ?s1 c1) (abs_metadata ?s1 ?md1))"
      "abs_metadata ?s1 (snd (apply_options_h ol ?s1 (ha, 0) ?md1)) =
         snd (apply_options ol (abs_hop ?s1 c1) (abs_metadata ?s1 ?md1))"
      "cell_Errors (cell_Trace (snd (apply_options_h ol ?s1 (ha, 0) ?md1))) = None"
      "chains (fst (apply_options_h ol ?s1 (ha, 0) ?md1)) = chains ?s1"
      "\<forall>a. a \<noteq> ea \<longrightarrow>
         error_arrays (fst (apply_options_h ol ?s1 (ha, 0) ?md1)) a = error_arrays ?s1 a"
    by blast
  have "abs_metadata s (snd (apply_options_h ol ?s1 (ha, 0) ?md1)) =
        abs_metadata ?s1 (snd (apply_options_h ol ?s1 (ha, 0) ?md1))"
    using abs_metadata_flat [OF r(4)] by simp
  with r a1 m1' ch1 ea1 show ?case by auto
qed

lemma wrap_in_place_sim:
  assumes je: "chains s p = Some je" and ha: "cell_Hops je = Some ha"
    and arr: "hop_arrays s ha = Some (c # cs)"
    and inb: "list_all (\<lambda>h. slice_in s (cell_Errors h)) (c # cs)"
    and n: "n \<le> ha" "n \<le> next_addr s"
    and ht: "\<And>s2. frame n s s2 \<Longrightarrow> hasTrace_h s2 e = Some found"
  shows "\<exists>s'. wrap_in_place ev s p e msg ol = Some (s', Inr (RChain p)) \<and>
           view s' p =
             Some (msg, e,
                   snd (apply_options ol (wrap_hop ev msg (abs_hop s c))
                          (if \<not> snd found then zero_Metadata\<lparr>Metadata_Trace := trace ev\<rparr>
                           else zero_Metadata)),
                   cell_OriginalErr je,
                   fst (apply_options ol (wrap_hop ev msg (abs_hop s c))
                          (if \<not> snd found then zero_Metadata\<lparr>Metadata_Trace := trace ev\<rparr>
                           else zero_Metadata)) # map (abs_hop s) cs)"
proof -
  define c2 where "c2 = (if cell_StackTrace c = None
                          then c\<lparr>cell_StackTrace := GetStackTrace ev 2\<rparr> else c)"
  define s2 where "s2 = (if cell_StackTrace (load_hop s (ha, 0)) = None
                           then update_hop s (ha, 0)
                                  (\<lambda>h. h\<lparr>cell_StackTrace := GetStackTrace ev 2\<rparr>)
                           else s)"
  define al where "al = alloc_errors s2
                         (NewError ev msg # load_errors s2 (cell_Errors (load_hop s2 (ha, 0))))"
  define ea where "ea = next_addr s"
  define c4 where "c4 = c2\<lparr>cell_Errors := Some ea\<rparr>"
  define s4 where "s4 = update_hop (fst al) (ha, 0) (\<lambda>h. h\<lparr>cell_Errors := Some (snd al)\<rparr>)"
  define mdc where "mdc = (if \<not> snd found
                            then zero_Metadata_cell\<lparr>cell_Trace := trace_h ev\<rparr>
                            else zero_Metadata_cell)"
  define mdv where "mdv = (if \<not> snd found then zero_Metadata\<lparr>Metadata_Trace := trace ev\<rparr>
                           else zero_Metadata)"
  define ap where "ap = apply_options_h ol s4 (ha, 0) mdc"
  define s' where "s' = update_chain (fst ap) p
                   (\<lambda>je. je\<lparr>cell_message := msg, cell_err := e, cell_metadata := snd ap\<rparr>)"
  have lh: "load_hop s (ha, 0) = c" using arr by (simp add: load_hop_def load_hops_def)
  have arr2: "hop_arrays s2 ha = Some (c2 # cs)"
    using arr by (simp add: s2_def c2_def lh update_hop_def)
  have err2: "error_arrays s2 = error_arrays s" "next_addr s2 = next_addr s" "chains s2 = chains s"
    using arr by (simp_all add: s2_def update_hop_def)
  have lh2: "load_hop s2 (ha, 0) = c2" using arr2 by (simp add: load_hop_def load_hops_def)
  have ce2: "cell_Errors c2 = cell_Errors c" by (simp add: c2_def)
  have le2: "load_errors s2 (cell_Errors c2) = load_errors s (cell_Errors c)"
    by (simp add: load_errors_def err2 ce2 split: option.splits)
  have al_snd: "snd al = ea" by (simp add: al_def alloc_errors_def err2 ea_def)
  have arr3: "hop_arrays (fst al) ha = Some (c2 # cs)"
    using arr2 by (simp add: al_def alloc_errors_def)
  have err3: "error_arrays (fst al) = (error_arrays s)(ea \<mapsto> NewError ev msg # load_errors s (cell_Errors c))"
    by (simp add: al_def alloc_errors_def err2 lh2 le2 ea_def)
  have arr4: "hop_arrays s4 ha = Some (c4 # cs)"
    using arr3 by (simp add: s4_def update_hop_def c4_def al_snd)
  have err4: "error_arrays s4 = (error_arrays s)(ea \<mapsto> NewError ev msg # load_errors s (cell_Errors c))"
    using arr3 err3 by (simp add: s4_def update_hop_def)
  have ch4: "chains s4 = chains s"
    using arr3 err2 by (simp add: s4_def update_hop_def al_def alloc_errors_def)
  have f4: "frame n s s4"
  proof -
    have "frame n s s2" using n by (simp add: s2_def frame_refl frame_update_hop)
    moreover have "frame n s2 (fst al)"
      unfolding al_def using n by (intro frame_alloc_errors) (simp add: err2)
    moreover have "frame n (fst al) s4" unfolding s4_def using n by (simp add: frame_update_hop)
    ultimately show ?thesis by (blast intro: frame_trans)
  qed
  from ht [OF f4] have found: "hasTrace_h s4 e = Some found" .
  have abs4: "abs_hop s4 c4 = wrap_hop ev msg (abs_hop s c)"
    by (simp add: abs_hop_def c4_def c2_def wrap_hop_def load_errors_def err4)
  have mdc: "cell_Errors (cell_Trace mdc) = None" "abs_metadata s4 mdc = mdv"
    by (simp_all add: mdc_def mdv_def zero_Metadata_cell_def zero_Hop_cell_def trace_h_def
          abs_metadata_def abs_hop_def load_errors_def zero_Metadata_def zero_Hop_def trace_def)
  have c4e: "cell_Errors c4 = Some ea" by (simp add: c4_def)
  from apply_options_h_sim [OF arr4 c4e mdc(1), of ol] obtain c' where
    r: "hop_arrays (fst ap) ha = Some (c' # cs)"
      "abs_hop (fst ap) c' = fst (apply_options ol (wrap_hop ev msg (abs_hop s c)) mdv)"
      "abs_metadata s4 (snd ap) = snd (apply_options ol (wrap_hop ev msg (abs_hop s c)) mdv)"
      "cell_Errors (cell_Trace (snd ap)) = None"
      "chains (fst ap) = chains s4"
      "\<forall>a. a \<noteq> ea \<longrightarrow> error_arrays (fst ap) a = error_arrays s4 a"
    unfolding ap_def abs4 mdc(2) by blast
  have w: "wrap_in_place ev s p e msg ol = Some (s', Inr (RChain p))"
    using je ha arr found
    by (simp add: wrap_in_place_def load_hops_def Let_def case_prod_beta
          s2_def [symmetric] al_def [symmetric] s4_def [symmetric] mdc_def [symmetric]
          ap_def [symmetric] s'_def [symmetric])
  have chp: "chains s' p = Some (je\<lparr>cell_message := msg, cell_err := e, cell_metadata := snd ap\<rparr>)"
    using je by (simp add: s'_def update_chain_def r(5) ch4)
  have hops': "hop_arrays s' = hop_arrays (fst ap)" "error_arrays s' = error_arrays (fst ap)"
    using je by (simp_all add: s'_def update_chain_def r(5) ch4)
  have abs': "abs_hop s' = abs_hop (fst ap)"
    by (rule ext) (simp add: abs_hop_def load_errors_def hops' split: option.splits)
  have tail: "map (abs_hop (fst ap)) cs = map (abs_hop s) cs"
  proof (rule map_cong [OF refl])
    fix h assume "h \<in> set cs"
    with inb have "slice_in s (cell_Errors h)" by (simp add: list_all_iff)
    then have "\<forall>a. cell_Errors h = Some a \<longrightarrow> a \<noteq> ea"
      by (auto simp: slice_in_def ea_def)
    then show "abs_hop (fst ap) h = abs_hop s h"
      using r(6) by (auto simp: abs_hop_def load_errors_def err4 split: option.splits)
  qed
  have mdf: "abs_metadata s' (snd ap) = snd (apply_options ol (wrap_hop ev msg (abs_hop s c)) mdv)"
    using abs_metadata_flat [OF r(4), of s' s4] r(3) by simp
  have "view s' p =
          Some (msg, e, snd (apply_options ol (wrap_hop ev msg (abs_hop s c)) mdv),
                cell_OriginalErr je,
                fst (apply_options ol (wrap_hop ev msg (abs_hop s c)) mdv) # map (abs_hop s) cs)"
    by (simp add: view_def chp ha load_hops_def hops' r(1) abs' r(2) tail mdf)
  with w show ?thesis unfolding mdv_def by blast
qed

lemma Wrap_h_refines:
  assumes ok: "heap_ok s" and q: "chain_in s q"
    and v: "view s q = Some (m, x, mdv, oe, h0 # hs)"
    and ht: "hasTrace_h s (RChain q) = Some found"
  shows "\<exists>s' p. Wrap_h ev s (RChain q) msg ol = Some (s', Inr (RChain p)) \<and>
           view s' p =
             Some (msg, RChain q,
                   snd (apply_options ol (wrap_hop ev msg h0)
                          (if \<not> snd found then zero_Metadata\<lparr>Metadata_Trace := trace ev\<rparr>
                           else zero_Metadata)),
                   oe,
                   fst (apply_options ol (wrap_hop ev msg h0)
                          (if \<not> snd found then zero_Metadata\<lparr>Metadata_Trace := trace ev\<rparr>
                           else zero_Metadata)) # hs)"
proof -
  let ?n = "next_addr s"
  from q obtain je where je: "chains s q = Some je" and lt: "q < ?n"
    by (auto simp: chain_in_def split: option.splits)
  then obtain s1 p where c: "Clone_h s q = Some (s1, p)"
    by (cases "Clone_h s q") (auto simp: Clone_h_def case_prod_beta Let_def)
  from Clone_h_frame [OF c] obtain je1 ha where
    f: "frame ?n s s1" and je1: "chains s1 p = Some je1" and ha: "cell_Hops je1 = Some ha"
    and nha: "?n \<le> ha" by blast
  from Clone_h_view [OF q c] v have v1: "view s1 p = Some (m, x, mdv, oe, h0 # hs)"
    and in1: "chain_in s1 p" by simp_all
  from v1 je1 ha have oe: "cell_OriginalErr je1 = oe"
    and hops: "map (abs_hop s1) (load_hops s1 (Some ha)) = h0 # hs"
    by (simp_all add: view_def)
  then obtain c0 cs where l: "load_hops s1 (Some ha) = c0 # cs"
    and c0: "abs_hop s1 c0 = h0" and cs: "map (abs_hop s1) cs = hs"
    by (cases "load_hops s1 (Some ha)") auto
  from l have arr: "hop_arrays s1 ha = Some (c0 # cs)"
    by (auto simp: load_hops_def split: option.splits)
  from in1 je1 ha l have inb: "list_all (\<lambda>h. slice_in s1 (cell_Errors h)) (c0 # cs)"
    by (simp add: chain_in_def)
  have n1: "?n \<le> next_addr s1" using f by (simp add: frame_def)
  have below: "ref_below s ?n (RChain q)" using je lt by simp
  have ht': "hasTrace_h s2 (RChain q) = Some found" if "frame ?n s1 s2" for s2
  proof -
    from f that have "frame ?n s s2" by (rule frame_trans)
    from hasTrace_h_frame_aux [OF ok this _ _ below] ht show ?thesis by simp
  qed
  from wrap_in_place_sim [OF je1 ha arr inb nha n1 ht', of ev msg ol]
  obtain s' where w: "wrap_in_place ev s1 p (RChain q) msg ol = Some (s', Inr (RChain p))"
    and vw: "view s' p =
             Some (msg, RChain q,
                   snd (apply_options ol (wrap_hop ev msg (abs_hop s1 c0))
                          (if \<not> snd found then zero_Metadata\<lparr>Metadata_Trace := trace ev\<rparr>
                           else zero_Metadata)),
                   cell_OriginalErr je1,
                   fst (apply_options ol (wrap_hop ev msg (abs_hop s1 c0))
                          (if \<not> snd found then zero_Metadata\<lparr>Metadata_Trace := trace ev\<rparr>
                           else zero_Metadata)) # map (abs_hop s1) cs)"
    by blast
  have "Wrap_h ev s (RChain q) msg ol = Some (s', Inr (RChain p))"
    using c w by (simp add: Wrap_h_def)
  with vw show ?thesis unfolding c0 cs oe by blast
qed

lemma Wrap_h_refines_Wrap:
  assumes ok: "heap_ok s" and q: "chain_in s q"
    and v: "view s q = Some (m, x, mdv, oe, h0 # hs)"
    and ht: "hasTrace_h s (RChain q) = Some found"
    and same: "snd (hasTrace (Some (JettisonError m xv mdv oev (h0 # hs)))) = snd found"
  shows "\<exists>s' p r. Wrap_h ev s (RChain q) msg ol = Some (s', Inr (RChain p)) \<and>
           Wrap ev (Some (JettisonError m xv mdv oev (h0 # hs))) msg ol = Inr (Some r) \<and>
           view s' p = Some (message r, RChain q, metadata r, oe, Hops r)"
  using Wrap_h_refines [OF ok q v ht, of ev msg ol] same
  unfolding Wrap_chain wrap_md_def by auto

section \<open>The claim about Wrap and its argument\<close>

text \<open>
  C1. \<^verbatim>\<open>Wrap\<close> does not change the error it is given. On the heap, whatever the error,
  the message and the options of \<^verbatim>\<open>errors.go\<close>: every chain allocated before the call,
  so the chain that is wrapped, is after the call the cell it was, with the same message,
  wrapped error, metadata, hops and segments; and the chain returned is another cell.
  The call returns on every heap in which no chain wraps itself.
\<close>

theorem Wrap_h_keeps_input:
  "chain_in s q \<Longrightarrow>
   (heap_ok s \<and> ref_below s (next_addr s) e \<longrightarrow>
      (\<exists>s' r. Wrap_h ev s e msg ol = Some (s', r))) \<and>
   (\<forall>s' r. Wrap_h ev s e msg ol = Some (s', r) \<longrightarrow>
      view s' q = view s q \<and> chains s' q = chains s q \<and> r \<noteq> Inr (RChain q))"
proof (intro conjI impI allI)
  assume "heap_ok s \<and> ref_below s (next_addr s) e"
  then show "\<exists>s' r. Wrap_h ev s e msg ol = Some (s', r)"
    using Wrap_h_total [of s e ev msg ol] by blast
next
  fix s' r
  assume q: "chain_in s q" and w: "Wrap_h ev s e msg ol = Some (s', r)"
  from Wrap_h_frame [OF w] have f: "frame (next_addr s) s s'" .
  from q have "q < next_addr s" by (simp add: chain_in_def)
  with Wrap_h_result [OF w] have r: "r \<noteq> Inr (RChain q)" by auto
  from frame_view [OF f q] show "view s' q = view s q" by simp
  from frame_view [OF f q] show "chains s' q = chains s q" by simp
  from r show "r \<noteq> Inr (RChain q)" .
qed

theorem Wrap_h_keeps_input_witness:
  "chain_in heap0 0 \<and> heap_ok heap0 \<and>
   (\<exists>s' p. Wrap_h ev1 heap0 (RChain 0) ''b'' [WithCode ''Y'', WithBinary ''w'', WithoutStackTrace]
       = Some (s', Inr (RChain p)) \<and>
     p \<noteq> 0 \<and> view s' 0 = view heap0 0 \<and> chains s' 0 = chains heap0 0)"
proof -
  from heap0_Wrap obtain s' p where
    w: "Wrap_h ev1 heap0 (RChain 0) ''b'' [WithCode ''Y'', WithBinary ''w'', WithoutStackTrace]
          = Some (s', Inr (RChain p))"
    by blast
  from Wrap_h_keeps_input [OF heap0_in, of "RChain 0" ev1 "''b''"
      "[WithCode ''Y'', WithBinary ''w'', WithoutStackTrace]"] w
  have "view s' 0 = view heap0 0 \<and> chains s' 0 = chains heap0 0 \<and> p \<noteq> 0"
    by auto
  with w heap0_in heap0_ok show ?thesis by blast
qed

end
